theory Spec2Isabelle
  imports Main "HOL-Library.Char_ord" "HOL-Library.List_Lexorder" "HOL-Library.Multiset"
begin

section \<open>Data model (convex/schema.ts)\<close>

text \<open>
  A JavaScript string is modelled as a HOL \<open>string\<close>; text beyond ASCII stands as its
  UTF-8 bytes. The relational operators of JavaScript on strings compare code units
  lexicographically, a proper prefix being smaller; on ASCII text this is the
  lexicographic order of \<open>char list\<close> (\<open>HOL-Library.List_Lexorder\<close> over
  \<open>HOL-Library.Char_ord\<close>). The \<open>v.number()\<close> fields that the operations only store, copy
  and order (nightly rates, head counts, the display rank, millisecond timestamps) hold
  integral quantities and are modelled as \<open>int\<close>. \<open>totalPrice\<close> is the field that
  \<open>getStats\<close> adds up; it is modelled as the IEEE 754 binary64 value that \<open>v.number()\<close>
  stores, with the addition of the language (see \<open>Number_add\<close> below).
\<close>

definition utf8 :: "nat list \<Rightarrow> string" where
  "utf8 bs = map char_of bs"

subsection \<open>Numbers\<close>

text \<open>
  A binary64 value is NaN, an infinity with its sign, or a finite value. Every finite
  binary64 value is an integral multiple of \<open>1 / 2 ^ 1074\<close>, the least positive one:
  \<open>Finite s n\<close> stands for the value \<open>n / 2 ^ 1074\<close>, negated when \<open>s\<close> holds (so
  \<open>Finite False 0\<close> is \<open>+0\<close> and \<open>Finite True 0\<close> is \<open>-0\<close>).
\<close>

datatype number = NaN | Infinite bool | Finite bool nat

text \<open>
  \<open>scale\<close> is the numerator of the value 1, and \<open>bits n\<close> the length of \<open>n\<close> in binary.
\<close>

definition scale :: nat where
  "scale = 2 ^ 1074"

fun bits :: "nat \<Rightarrow> nat" where
  "bits n = (if n = 0 then 0 else Suc (bits (n div 2)))"

declare bits.simps [simp del]

text \<open>
  The numerators of binary64 values are those below \<open>2 ^ 1024 * scale\<close> whose binary digits
  beyond the leading 53 are all zero.
\<close>

definition is_double :: "number \<Rightarrow> bool" where
  "is_double x =
     (case x of
        Finite s n \<Rightarrow> n < 2 ^ 1024 * scale \<and> (bits n \<le> 53 \<or> 2 ^ (bits n - 53) dvd n)
      | _ \<Rightarrow> True)"

text \<open>
  Rounding to nearest, ties to even (ECMAScript, Number::add: the sum of two finite
  values is the binary64 value nearest the mathematical sum). A numerator of more than 53
  binary digits loses its \<open>k\<close> trailing digits: it goes to the nearer multiple of
  \<open>2 ^ k\<close>, to the one with the even quotient when it lies halfway, and to the infinity of
  its sign when that multiple is beyond the largest finite value.
\<close>

definition round64 :: "bool \<Rightarrow> nat \<Rightarrow> number" where
  "round64 s n =
     (let l = bits n in
      if l \<le> 53 then Finite s n
      else
        let k = l - 53;
            q = n div 2 ^ k;
            r = n mod 2 ^ k;
            h = 2 ^ (k - 1);
            q' = (if r > h \<or> (r = h \<and> odd q) then q + 1 else q);
            m = q' * 2 ^ k
        in if m \<ge> 2 ^ 1024 * scale then Infinite s else Finite s m)"

definition signed :: "bool \<Rightarrow> nat \<Rightarrow> int" where
  "signed s n = (if s then - int n else int n)"

text \<open>
  The operator \<open>+\<close> on two numbers (ECMAScript, Number::add). The sum of two zeros, and of
  two opposite values, is \<open>+0\<close>, except that \<open>-0 + -0\<close> is \<open>-0\<close>.
\<close>

fun Number_add :: "number \<Rightarrow> number \<Rightarrow> number" where
  "Number_add NaN y = NaN"
| "Number_add x NaN = NaN"
| "Number_add (Infinite s) (Infinite t) = (if s = t then Infinite s else NaN)"
| "Number_add (Infinite s) (Finite t b) = Infinite s"
| "Number_add (Finite s a) (Infinite t) = Infinite t"
| "Number_add (Finite s a) (Finite t b) =
     (let S = signed s a + signed t b in
      if S = 0 then Finite (s \<and> t) 0 else round64 (S < 0) (nat \<bar>S\<bar>))"

text \<open>
  \<open>num_of_int i\<close> is the number that the integer literal \<open>i\<close> denotes, and \<open>to_int x\<close> the
  integer that \<open>x\<close> is, if it is one.
\<close>

definition num_of_int :: "int \<Rightarrow> number" where
  "num_of_int i = (if i = 0 then Finite False 0 else round64 (i < 0) (nat \<bar>i\<bar> * scale))"

definition to_int :: "number \<Rightarrow> int option" where
  "to_int x =
     (case x of
        Finite s n \<Rightarrow> if scale dvd n then Some (signed s (n div scale)) else None
      | _ \<Rightarrow> None)"

subsection \<open>Documents\<close>

type_synonym doc_id = nat

text \<open>
  A table holds documents in creation order, each under the \<open>_id\<close> the store gave it;
  \<open>collect()\<close> returns them in that order. A query result \<open>(i, d)\<close> is the document
  with \<open>_id = i\<close> and the schema's fields \<open>d\<close>.
\<close>

type_synonym 'a table = "(doc_id \<times> 'a) list"

record description =
  vi :: string
  ko :: string
  en :: string

record room =
  name :: string
  nameKo :: string
  nameEn :: string
  description :: description
  price :: int
  capacity :: int
  bedType :: string
  amenities :: "string list"
  images :: "string list"
  isAvailable :: bool
  order :: int

datatype status = Pending | Confirmed | Cancelled | Completed

record blockedDate =
  roomId :: doc_id
  date :: string
  reason :: "string option"

record reservation =
  roomId :: doc_id
  guestName :: string
  guestEmail :: string
  guestPhone :: string
  guestCountry :: string
  checkIn :: string
  checkOut :: string
  adults :: int
  children :: int
  totalPrice :: number
  status :: status
  specialRequests :: "string option"
  createdAt :: int
  updatedAt :: int

text \<open>
  The store: the three tables the operations read and write, and the supply of fresh
  document ids (\<open>nextId\<close> is the id the next \<open>insert\<close> hands out).
\<close>

record db =
  rooms :: "room table"
  reservations :: "reservation table"
  blockedDates :: "blockedDate table"
  nextId :: doc_id

datatype error =
    NotFound       \<comment> \<open>cancel: the reservation cannot be found\<close>
  | Unauthorized   \<comment> \<open>cancel: the guest email does not match\<close>
  | InvalidState   \<comment> \<open>cancel: a confirmed reservation cannot be cancelled\<close>
  | PatchMissing   \<comment> \<open>\<open>ctx.db.patch\<close> on an id that has no document\<close>

subsection \<open>The store's primitives (\<open>ctx.db\<close>)\<close>

definition db_get :: "'a table \<Rightarrow> doc_id \<Rightarrow> 'a option" where
  "db_get t i = map_of t i"

definition db_patch :: "'a table \<Rightarrow> doc_id \<Rightarrow> ('a \<Rightarrow> 'a) \<Rightarrow> error + 'a table" where
  "db_patch t i f =
     (case db_get t i of
        None \<Rightarrow> Inl PatchMissing
      | Some _ \<Rightarrow> Inr (map (\<lambda>(j, d). if j = i then (j, f d) else (j, d)) t))"

definition insert_room :: "db \<Rightarrow> room \<Rightarrow> doc_id \<times> db" where
  "insert_room s r =
     (nextId s, s\<lparr>rooms := rooms s @ [(nextId s, r)], nextId := Suc (nextId s)\<rparr>)"

text \<open>
  \<open>rooms.sort((a, b) => a.order - b.order)\<close>: \<open>Array.prototype.sort\<close> is stable, and so
  is the insertion sort \<open>sort_key\<close>; a stable sort by a key has one result.
\<close>

definition sort_by_order :: "(doc_id \<times> room) list \<Rightarrow> (doc_id \<times> room) list" where
  "sort_by_order rs = sort_key (\<lambda>r. order (snd r)) rs"

section \<open>Room catalogue (the rooms module)\<close>

text \<open>
  The handlers of the rooms module (\<open>list\<close>, \<open>listAll\<close>, \<open>getAvailableRooms\<close>,
  \<open>seedRooms\<close>) stand in the repository's files after the text of
  \<open>docs/CUSTOMIZATION.md\<close>; those of the reservations module (\<open>updateStatus\<close>,
  \<open>cancel\<close>, \<open>getStats\<close>) are the file \<open>unnamed/part_021\<close>. A query handler reads the
  store and returns a value.
\<close>

definition list :: "db \<Rightarrow> (doc_id \<times> room) list" where
  "list s = sort_by_order (filter (\<lambda>r. isAvailable (snd r) = True) (rooms s))"

definition listAll :: "db \<Rightarrow> (doc_id \<times> room) list" where
  "listAll s = sort_by_order (rooms s)"

section \<open>Reservation ledger (the reservations module)\<close>

text \<open>
  A mutation takes the store and returns what the handler returns or throws, with the
  store as the handler left it: the writes it made before returning or throwing.
  \<open>now\<close> is the value of \<open>Date.now()\<close> at the call.
\<close>

definition updateStatus :: "int \<Rightarrow> db \<Rightarrow> doc_id \<Rightarrow> status \<Rightarrow> (error + doc_id) \<times> db" where
  "updateStatus now s reservationId st =
     (case db_patch (reservations s) reservationId (\<lambda>r. r\<lparr>status := st, updatedAt := now\<rparr>) of
        Inl e \<Rightarrow> (Inl e, s)
      | Inr t \<Rightarrow> (Inr reservationId, s\<lparr>reservations := t\<rparr>))"

definition cancel :: "int \<Rightarrow> db \<Rightarrow> doc_id \<Rightarrow> string \<Rightarrow> (error + doc_id) \<times> db" where
  "cancel now s reservationId email =
     (case db_get (reservations s) reservationId of
        None \<Rightarrow> (Inl NotFound, s)
      | Some reservation \<Rightarrow>
          if guestEmail reservation \<noteq> email then (Inl Unauthorized, s)
          else if status reservation \<noteq> Pending then (Inl InvalidState, s)
          else
            (case db_patch (reservations s) reservationId
                    (\<lambda>r. r\<lparr>status := Cancelled, updatedAt := now\<rparr>) of
               Inl e \<Rightarrow> (Inl e, s)
             | Inr t \<Rightarrow> (Inr reservationId, s\<lparr>reservations := t\<rparr>)))"

record stats =
  total :: nat
  pending :: nat
  confirmed :: nat
  cancelled :: nat
  completed :: nat
  totalRevenue :: number

definition getStats :: "db \<Rightarrow> stats" where
  "getStats s =
     (let reservations = map snd (reservations s) in
      \<lparr>total = length reservations,
       pending = length (filter (\<lambda>r. status r = Pending) reservations),
       confirmed = length (filter (\<lambda>r. status r = Confirmed) reservations),
       cancelled = length (filter (\<lambda>r. status r = Cancelled) reservations),
       completed = length (filter (\<lambda>r. status r = Completed) reservations),
       totalRevenue =
         foldl (\<lambda>sum r. Number_add sum (totalPrice r)) (Finite False 0)
           (filter (\<lambda>r. status r = Confirmed \<or> status r = Completed) reservations)\<rparr>)"

section \<open>Seeding the catalogue (the rooms module, \<open>seedRooms\<close>)\<close>

text \<open>
  The two messages and the texts of the six rooms are Korean and Vietnamese; they stand
  here as their UTF-8 bytes.
\<close>

record seed_result =
  message :: string
  count :: nat

definition msg_rooms_exist :: string where
  \<comment> \<open>"room data already exists"\<close>
  "msg_rooms_exist =
     utf8 [0xEC, 0x9D, 0xB4, 0xEB, 0xAF, 0xB8] @
     '' '' @
     utf8 [0xEA, 0xB0, 0x9D, 0xEC, 0x8B, 0xA4] @
     '' '' @
     utf8 [0xEB, 0x8D, 0xB0, 0xEC, 0x9D, 0xB4, 0xED, 0x84, 0xB0] @
     utf8 [0xEA, 0xB0, 0x80] @
     '' '' @
     utf8 [0xEC, 0x9E, 0x88, 0xEC, 0x8A, 0xB5, 0xEB, 0x8B, 0x88] @
     utf8 [0xEB, 0x8B, 0xA4] @
     ''.''"

definition msg_rooms_created :: string where
  \<comment> \<open>"room data has been created"\<close>
  "msg_rooms_created =
     utf8 [0xEA, 0xB0, 0x9D, 0xEC, 0x8B, 0xA4] @
     '' '' @
     utf8 [0xEB, 0x8D, 0xB0, 0xEC, 0x9D, 0xB4, 0xED, 0x84, 0xB0] @
     utf8 [0xEA, 0xB0, 0x80] @
     '' '' @
     utf8 [0xEC, 0x83, 0x9D, 0xEC, 0x84, 0xB1, 0xEB, 0x90, 0x98] @
     utf8 [0xEC, 0x97, 0x88, 0xEC, 0x8A, 0xB5, 0xEB, 0x8B, 0x88] @
     utf8 [0xEB, 0x8B, 0xA4] @
     ''.''"

definition roomsData :: "room list" where
  "roomsData =
  [
   \<lparr>name = ''Ph'' @ utf8 [0xC3, 0xB2] @ ''ng H'' @ utf8 [0xE1, 0xBA, 0xA1] @ ''nh Ph'' @
      utf8 [0xC3, 0xBA] @ ''c'',
    nameKo = utf8 [0xED, 0x96, 0x89, 0xEB, 0xB3, 0xB5, 0xEC, 0x9D, 0x98] @ '' '' @
      utf8 [0xEB, 0xB0, 0xA9],
    nameEn = ''Happiness Room'',
    description = \<lparr>
      vi = ''Ph'' @ utf8 [0xC3, 0xB2] @ ''ng '' @ utf8 [0xE1, 0xBA, 0xA5] @ ''m c'' @
        utf8 [0xC3, 0xBA] @ ''ng v'' @ utf8 [0xE1, 0xBB, 0x9B] @ ''i t'' @
        utf8 [0xC3, 0xB4] @ ''ng m'' @ utf8 [0xC3, 0xA0] @ ''u be, mang '' @
        utf8 [0xC4, 0x91, 0xE1, 0xBA, 0xBF] @ ''n c'' @ utf8 [0xE1, 0xBA, 0xA3] @
        ''m gi'' @ utf8 [0xC3, 0xA1] @ ''c tho'' @ utf8 [0xE1, 0xBA, 0xA3] @ ''i m'' @
        utf8 [0xC3, 0xA1] @ ''i nh'' @ utf8 [0xC6, 0xB0] @ '' '' @
        utf8 [0xE1, 0xBB, 0x9F] @ '' nh'' @ utf8 [0xC3, 0xA0] @ ''.'',
      ko = utf8 [0xEB, 0xB2, 0xA0, 0xEC, 0x9D, 0xB4, 0xEC, 0xA7, 0x80] @ '' '' @
        utf8 [0xED, 0x86, 0xA4, 0xEC, 0x9D, 0x98] @ '' '' @
        utf8 [0xEC, 0x95, 0x84, 0xEB, 0x8A, 0x91, 0xED, 0x95, 0x9C] @ '' '' @
        utf8 [0xEB, 0xB0, 0xA9, 0xEC, 0x9C, 0xBC, 0xEB, 0xA1, 0x9C] @ '', '' @
        utf8 [0xEC, 0xA7, 0x91] @ '' '' @ utf8 [0xEA, 0xB0, 0x99, 0xEC, 0x9D, 0x80] @
        '' '' @ utf8 [0xED, 0x8E, 0xB8, 0xEC, 0x95, 0x88, 0xED, 0x95, 0xA8] @
        utf8 [0xEC, 0x9D, 0x84] @ '' '' @
        utf8 [0xEC, 0x84, 0xA0, 0xEC, 0x82, 0xAC, 0xED, 0x95, 0xA9] @
        utf8 [0xEB, 0x8B, 0x88, 0xEB, 0x8B, 0xA4] @ ''.'',
      en = ''A cozy room with beige tones, offering a comfortable home-like feeling.''\<rparr>,
    price = 50000, capacity = 4, bedType = ''king'',
    amenities = [''wifi'', ''ac'', ''tv'', ''fridge'', ''private_bathroom''],
    images = [''/images/room-happiness-1.jpg'', ''/images/room-happiness-2.jpg''],
    isAvailable = True, order = 1\<rparr>,
   \<lparr>name = ''Ph'' @ utf8 [0xC3, 0xB2] @ ''ng B'' @ utf8 [0xC3, 0xAC] @ ''nh Y'' @
      utf8 [0xC3, 0xAA] @ ''n'',
    nameKo = utf8 [0xED, 0x8F, 0x89, 0xED, 0x99, 0x94, 0xEC, 0x9D, 0x98] @ '' '' @
      utf8 [0xEB, 0xB0, 0xA9],
    nameEn = ''Peace Room'',
    description = \<lparr>
      vi = ''Ph'' @ utf8 [0xC3, 0xB2] @ ''ng v'' @ utf8 [0xE1, 0xBB, 0x9B] @ ''i t'' @
        utf8 [0xC3, 0xB4] @ ''ng m'' @ utf8 [0xC3, 0xA0] @ ''u tr'' @
        utf8 [0xE1, 0xBA, 0xAF] @ ''ng tinh khi'' @ utf8 [0xE1, 0xBA, 0xBF] @
        ''t, thi'' @ utf8 [0xE1, 0xBA, 0xBF] @ ''t k'' @ utf8 [0xE1, 0xBA, 0xBF] @
        '' '' @ utf8 [0xC4, 0x91, 0xC6, 0xA1] @ ''n gi'' @ utf8 [0xE1, 0xBA, 0xA3] @
        ''n v'' @ utf8 [0xC3, 0xA0] @ '' thanh l'' @ utf8 [0xE1, 0xBB, 0x8B] @ ''ch.'',
      ko = utf8 [0xEC, 0x88, 0x9C, 0xEB, 0xB0, 0xB1, 0xEC, 0x9D, 0x98] @ '' '' @
        utf8 [0xED, 0x99, 0x94, 0xEC, 0x9D, 0xB4, 0xED, 0x8A, 0xB8] @ '' '' @
        utf8 [0xED, 0x86, 0xA4, 0xEC, 0x9C, 0xBC, 0xEB, 0xA1, 0x9C] @ '' '' @
        utf8 [0xEC, 0x8B, 0xAC, 0xED, 0x94, 0x8C, 0xED, 0x95, 0x98] @
        utf8 [0xEA, 0xB3, 0xA0] @ '' '' @
        utf8 [0xEC, 0x9A, 0xB0, 0xEC, 0x95, 0x84, 0xED, 0x95, 0x9C] @ '' '' @
        utf8 [0xEB, 0x94, 0x94, 0xEC, 0x9E, 0x90, 0xEC, 0x9D, 0xB8] @
        utf8 [0xEC, 0x9D, 0x98] @ '' '' @
        utf8 [0xEB, 0xB0, 0xA9, 0xEC, 0x9E, 0x85, 0xEB, 0x8B, 0x88] @
        utf8 [0xEB, 0x8B, 0xA4] @ ''.'',
      en = ''A room with pure white tones, featuring simple and elegant design.''\<rparr>,
    price = 50000, capacity = 4, bedType = ''king'',
    amenities = [''wifi'', ''ac'', ''tv'', ''fridge'', ''private_bathroom''],
    images = [''/images/room-peace-1.jpg''],
    isAvailable = True, order = 2\<rparr>,
   \<lparr>name = ''Ph'' @ utf8 [0xC3, 0xB2] @ ''ng '' @ utf8 [0xE1, 0xBA, 0xA4] @ ''m '' @
      utf8 [0xC3, 0x81] @ ''p'',
    nameKo = utf8 [0xEB, 0x94, 0xB0, 0xEB, 0x9C, 0xBB, 0xED, 0x95, 0x9C] @ '' '' @
      utf8 [0xEB, 0xB0, 0xA9],
    nameEn = ''Warmth Room'',
    description = \<lparr>
      vi = ''Ph'' @ utf8 [0xC3, 0xB2] @ ''ng c'' @ utf8 [0xC3, 0xB3] @ '' gi'' @
        utf8 [0xE1, 0xBA, 0xA5] @ ''y d'' @ utf8 [0xC3, 0xA1] @ ''n t'' @
        utf8 [0xC6, 0xB0, 0xE1, 0xBB, 0x9D] @ ''ng '' @ utf8 [0xC4, 0x91] @ ''i'' @
        utf8 [0xE1, 0xBB, 0x83] @ ''m nh'' @ utf8 [0xE1, 0xBA, 0xA5] @ ''n v'' @
        utf8 [0xC3, 0xA0] @ '' gi'' @ utf8 [0xC6, 0xB0, 0xE1, 0xBB, 0x9D] @ ''ng c'' @
        utf8 [0xC3, 0xB3] @ '' ng'' @ utf8 [0xC4, 0x83] @ ''n ch'' @
        utf8 [0xE1, 0xBB, 0xA9] @ ''a '' @ utf8 [0xC4, 0x91, 0xE1, 0xBB, 0x93] @
        '' ti'' @ utf8 [0xE1, 0xBB, 0x87] @ ''n l'' @ utf8 [0xE1, 0xBB, 0xA3] @ ''i.'',
      ko = utf8 [0xED, 0x8F, 0xAC, 0xEC, 0x9D, 0xB8, 0xED, 0x8A, 0xB8] @ '' '' @
        utf8 [0xEB, 0xB2, 0xBD, 0xEC, 0xA7, 0x80, 0xEC, 0x99, 0x80] @ '' '' @
        utf8 [0xEC, 0x88, 0x98, 0xEB, 0x82, 0xA9] @ '' '' @
        utf8 [0xEC, 0xB9, 0xA8, 0xEB, 0x8C, 0x80, 0xEA, 0xB0, 0x80] @ '' '' @
        utf8 [0xEC, 0x9E, 0x88, 0xEB, 0x8A, 0x94] @ '' '' @
        utf8 [0xEC, 0x8B, 0xA4, 0xEC, 0x9A, 0xA9, 0xEC, 0xA0, 0x81] @
        utf8 [0xEC, 0x9D, 0xB8] @ '' '' @
        utf8 [0xEB, 0xB0, 0xA9, 0xEC, 0x9E, 0x85, 0xEB, 0x8B, 0x88] @
        utf8 [0xEB, 0x8B, 0xA4] @ ''.'',
      en = ''A practical room with accent wallpaper and storage bed.''\<rparr>,
    price = 50000, capacity = 4, bedType = ''king'',
    amenities = [''wifi'', ''ac'', ''tv'', ''fridge'', ''private_bathroom''],
    images = [''/images/room-warmth-1.jpg'', ''/images/room-warmth-2.jpg''],
    isAvailable = True, order = 3\<rparr>,
   \<lparr>name = ''Ph'' @ utf8 [0xC3, 0xB2] @ ''ng An L'' @ utf8 [0xC3, 0xA0] @ ''nh'',
    nameKo = utf8 [0xED, 0x8F, 0x89, 0xEC, 0x95, 0x88, 0xEC, 0x9D, 0x98] @ '' '' @
      utf8 [0xEB, 0xB0, 0xA9],
    nameEn = ''Serenity Room'',
    description = \<lparr>
      vi = ''Ph'' @ utf8 [0xC3, 0xB2] @ ''ng r'' @ utf8 [0xE1, 0xBB, 0x99] @ ''ng r'' @
        utf8 [0xC3, 0xA3] @ ''i v'' @ utf8 [0xE1, 0xBB, 0x9B] @ ''i '' @
        utf8 [0xC4, 0x91, 0xE1, 0xBA, 0xA7] @ ''y '' @
        utf8 [0xC4, 0x91, 0xE1, 0xBB, 0xA7] @ '' ti'' @ utf8 [0xE1, 0xBB, 0x87] @
        ''n nghi, TV m'' @ utf8 [0xC3, 0xA0] @ ''n h'' @ utf8 [0xC3, 0xAC] @ ''nh l'' @
        utf8 [0xE1, 0xBB, 0x9B] @ ''n.'',
      ko = utf8 [0xEB, 0x84, 0x93, 0xEC, 0x9D, 0x80] @ '' '' @
        utf8 [0xEA, 0xB3, 0xB5, 0xEA, 0xB0, 0x84, 0xEC, 0x97, 0x90] @ '' TV'' @
        utf8 [0xEA, 0xB0, 0x80] @ '' '' @
        utf8 [0xEC, 0x99, 0x84, 0xEB, 0xB9, 0x84, 0xEB, 0x90, 0x9C] @ '' '' @
        utf8 [0xEC, 0x97, 0xAC, 0xEC, 0x9C, 0xA0, 0xEB, 0xA1, 0x9C] @
        utf8 [0xEC, 0x9A, 0xB4] @ '' '' @
        utf8 [0xEB, 0xB0, 0xA9, 0xEC, 0x9E, 0x85, 0xEB, 0x8B, 0x88] @
        utf8 [0xEB, 0x8B, 0xA4] @ ''.'',
      en = ''A spacious room fully equipped with a large TV.''\<rparr>,
    price = 50000, capacity = 4, bedType = ''king'',
    amenities = [''wifi'', ''ac'', ''tv'', ''fridge'', ''private_bathroom''],
    images = [''/images/room-serenity-1.jpg'', ''/images/room-serenity-2.jpg''],
    isAvailable = True, order = 4\<rparr>,
   \<lparr>name = ''Ph'' @ utf8 [0xC3, 0xB2] @ ''ng Th'' @ utf8 [0xC6, 0xB0] @ '' Gi'' @
      utf8 [0xC3, 0xA3] @ ''n'',
    nameKo = utf8 [0xED, 0x9C, 0xB4, 0xEC, 0x8B, 0x9D, 0xEC, 0x9D, 0x98] @ '' '' @
      utf8 [0xEB, 0xB0, 0xA9],
    nameEn = ''Relax Room'',
    description = \<lparr>
      vi = ''Ph'' @ utf8 [0xC3, 0xB2] @ ''ng '' @ utf8 [0xE1, 0xBA, 0xA5] @ ''m c'' @
        utf8 [0xC3, 0xBA] @ ''ng ho'' @ utf8 [0xC3, 0xA0] @ ''n h'' @
        utf8 [0xE1, 0xBA, 0xA3] @ ''o '' @ utf8 [0xC4, 0x91, 0xE1, 0xBB, 0x83] @
        '' th'' @ utf8 [0xC6, 0xB0] @ '' gi'' @ utf8 [0xC3, 0xA3] @ ''n sau m'' @
        utf8 [0xE1, 0xBB, 0x99] @ ''t ng'' @ utf8 [0xC3, 0xA0] @ ''y d'' @
        utf8 [0xC3, 0xA0] @ ''i.'',
      ko = utf8 [0xEA, 0xB8, 0xB4] @ '' '' @ utf8 [0xED, 0x95, 0x98, 0xEB, 0xA3, 0xA8] @
        '' '' @ utf8 [0xED, 0x9B, 0x84] @ '' '' @
        utf8 [0xED, 0x9C, 0xB4, 0xEC, 0x8B, 0x9D, 0xED, 0x95, 0x98] @
        utf8 [0xEA, 0xB8, 0xB0, 0xEC, 0x97, 0x90] @ '' '' @
        utf8 [0xEC, 0x99, 0x84, 0xEB, 0xB2, 0xBD, 0xED, 0x95, 0x9C] @ '' '' @
        utf8 [0xEC, 0x95, 0x84, 0xEB, 0x8A, 0x91, 0xED, 0x95, 0x9C] @ '' '' @
        utf8 [0xEB, 0xB0, 0xA9, 0xEC, 0x9E, 0x85, 0xEB, 0x8B, 0x88] @
        utf8 [0xEB, 0x8B, 0xA4] @ ''.'',
      en = ''A cozy room perfect for relaxing after a long day.''\<rparr>,
    price = 50000, capacity = 4, bedType = ''king'',
    amenities = [''wifi'', ''ac'', ''tv'', ''fridge'', ''private_bathroom''],
    images = [''/images/room-serenity-2.jpg''],
    isAvailable = True, order = 5\<rparr>,
   \<lparr>name = ''Ph'' @ utf8 [0xC3, 0xB2] @ ''ng Y'' @ utf8 [0xC3, 0xAA] @ ''u Th'' @
      utf8 [0xC6, 0xB0, 0xC6, 0xA1] @ ''ng'',
    nameKo = utf8 [0xEC, 0x82, 0xAC, 0xEB, 0x9E, 0x91, 0xEC, 0x9D, 0x98] @ '' '' @
      utf8 [0xEB, 0xB0, 0xA9],
    nameEn = ''Love Room'',
    description = \<lparr>
      vi = ''Ph'' @ utf8 [0xC3, 0xB2] @ ''ng l'' @ utf8 [0xC3, 0xBD] @ '' t'' @
        utf8 [0xC6, 0xB0, 0xE1, 0xBB, 0x9F] @ ''ng cho c'' @ utf8 [0xC3, 0xA1] @
        ''c c'' @ utf8 [0xE1, 0xBA, 0xB7] @ ''p '' @ utf8 [0xC4, 0x91, 0xC3, 0xB4] @
        ''i v'' @ utf8 [0xC3, 0xA0] @ '' gia '' @ utf8 [0xC4, 0x91, 0xC3, 0xAC] @
        ''nh nh'' @ utf8 [0xE1, 0xBB, 0x8F] @ ''.'',
      ko = utf8 [0xEC, 0xBB, 0xA4, 0xED, 0x94, 0x8C, 0xEA, 0xB3, 0xBC] @ '' '' @
        utf8 [0xEC, 0x86, 0x8C, 0xEA, 0xB7, 0x9C, 0xEB, 0xAA, 0xA8] @ '' '' @
        utf8 [0xEA, 0xB0, 0x80, 0xEC, 0xA1, 0xB1, 0xEC, 0x97, 0x90] @
        utf8 [0xEA, 0xB2, 0x8C] @ '' '' @
        utf8 [0xEC, 0x9D, 0xB4, 0xEC, 0x83, 0x81, 0xEC, 0xA0, 0x81] @
        utf8 [0xEC, 0x9D, 0xB8] @ '' '' @
        utf8 [0xEB, 0xB0, 0xA9, 0xEC, 0x9E, 0x85, 0xEB, 0x8B, 0x88] @
        utf8 [0xEB, 0x8B, 0xA4] @ ''.'',
      en = ''An ideal room for couples and small families.''\<rparr>,
    price = 50000, capacity = 4, bedType = ''king'',
    amenities = [''wifi'', ''ac'', ''tv'', ''fridge'', ''private_bathroom''],
    images = [''/images/room-warmth-2.jpg''],
    isAvailable = True, order = 6\<rparr>
  ]"

definition seedRooms :: "db \<Rightarrow> seed_result \<times> db" where
  "seedRooms s =
     (let existingRooms = rooms s in
      if length existingRooms > 0
      then (\<lparr>message = msg_rooms_exist, count = length existingRooms\<rparr>, s)
      else (\<lparr>message = msg_rooms_created, count = length roomsData\<rparr>,
            foldl (\<lambda>s' room. snd (insert_room s' room)) s roomsData))"

section \<open>Dates: the ECMAScript \<open>Date\<close> object, in UTC\<close>

text \<open>
  \<open>getAvailableRooms\<close> enumerates the requested nights with \<open>Date\<close>. The model follows
  the ECMAScript specification (Date objects, "Time Values and Time Range"): a valid
  \<open>Date\<close> holds a time value, the milliseconds since 1970-01-01T00:00:00Z as an
  integer; an invalid one holds \<open>NaN\<close>, here \<open>None\<close>. The functions run in the store's
  runtime, whose local time zone is UTC, so \<open>LocalTime t = t\<close>. Integer division
  \<open>div\<close> on \<open>int\<close> rounds down, as \<open>floor\<close> does in the specification.
\<close>

definition msPerDay :: int where
  "msPerDay = 86400000"

definition Day :: "int \<Rightarrow> int" where
  "Day t = t div msPerDay"

definition TimeWithinDay :: "int \<Rightarrow> int" where
  "TimeWithinDay t = t mod msPerDay"

definition DaysInYear :: "int \<Rightarrow> int" where
  "DaysInYear y =
     (if y mod 4 \<noteq> 0 then 365
      else if y mod 100 \<noteq> 0 then 366
      else if y mod 400 \<noteq> 0 then 365
      else 366)"

definition DayFromYear :: "int \<Rightarrow> int" where
  "DayFromYear y =
     365 * (y - 1970) + (y - 1969) div 4 - (y - 1901) div 100 + (y - 1601) div 400"

text \<open>
  A year is as long as \<open>DaysInYear\<close> says: the step of \<open>DayFromYear\<close>. The search for
  the year of a day terminates by it.
\<close>

lemma div_succ:
  fixes a k :: int
  assumes "0 < k"
  shows "(a + 1) div k = a div k + (if (a + 1) mod k = 0 then 1 else 0)"
proof (cases "(a + 1) mod k = 0")
  case True
  then obtain q where q: "a + 1 = k * q" by (auto simp: mod_eq_0_iff_dvd)
  have "a = k * (q - 1) + (k - 1)" using q by (simp add: algebra_simps)
  then have "a div k = q - 1"
    using assms by (intro int_div_pos_eq[where r="k - 1"]) auto
  moreover have "(a + 1) div k = q" using q assms by simp
  ultimately show ?thesis using True by simp
next
  case False
  have r: "0 \<le> a mod k" "a mod k < k" using assms by simp_all
  have "a mod k + 1 \<noteq> k"
  proof
    assume "a mod k + 1 = k"
    moreover have "(a + 1) mod k = (a mod k + 1) mod k" by (simp add: mod_add_left_eq)
    ultimately have "(a + 1) mod k = 0" by simp
    then show False using False by simp
  qed
  then have lt: "a mod k + 1 < k" using r by linarith
  have "a + 1 = k * (a div k) + (a mod k + 1)" by simp
  then have "(a + 1) div k = a div k"
    using r lt by (intro int_div_pos_eq[where r="a mod k + 1"]) auto
  then show ?thesis using False by simp
qed

lemma mod4_shift: "(y + 1 - 1969) mod 4 = 0 \<longleftrightarrow> (y::int) mod 4 = 0"
proof -
  have "y + 1 - 1969 = y + 4 * (- 492)" by simp
  then show ?thesis by (simp only: mod_mult_self2)
qed
lemma mod100_shift: "(y + 1 - 1901) mod 100 = 0 \<longleftrightarrow> (y::int) mod 100 = 0"
proof -
  have "y + 1 - 1901 = y + 100 * (- 19)" by simp
  then show ?thesis by (simp only: mod_mult_self2)
qed
lemma mod400_shift: "(y + 1 - 1601) mod 400 = 0 \<longleftrightarrow> (y::int) mod 400 = 0"
proof -
  have "y + 1 - 1601 = y + 400 * (- 4)" by simp
  then show ?thesis by (simp only: mod_mult_self2)
qed
lemma mod100_mod4: "(y::int) mod 100 = 0 \<Longrightarrow> y mod 4 = 0"
proof -
  assume "y mod 100 = 0"
  then have "100 dvd y" by (simp add: mod_eq_0_iff_dvd)
  moreover have "(4::int) dvd 100" by simp
  ultimately have "4 dvd y" by (rule dvd_trans[rotated])
  then show ?thesis by (simp add: mod_eq_0_iff_dvd)
qed
lemma mod400_mod100: "(y::int) mod 400 = 0 \<Longrightarrow> y mod 100 = 0"
proof -
  assume "y mod 400 = 0"
  then have "400 dvd y" by (simp add: mod_eq_0_iff_dvd)
  moreover have "(100::int) dvd 400" by simp
  ultimately have "100 dvd y" by (rule dvd_trans[rotated])
  then show ?thesis by (simp add: mod_eq_0_iff_dvd)
qed

lemma DayFromYear_step: "DayFromYear (y + 1) = DayFromYear y + DaysInYear y"
proof -
  have a: "(y + 1 - 1969) div 4 = (y - 1969) div 4 + (if y mod 4 = 0 then 1 else 0)"
    using div_succ[of 4 "y - 1969"] mod4_shift[of y] by (simp add: algebra_simps)
  have b: "(y + 1 - 1901) div 100 = (y - 1901) div 100 + (if y mod 100 = 0 then 1 else 0)"
    using div_succ[of 100 "y - 1901"] mod100_shift[of y] by (simp add: algebra_simps)
  have c: "(y + 1 - 1601) div 400 = (y - 1601) div 400 + (if y mod 400 = 0 then 1 else 0)"
    using div_succ[of 400 "y - 1601"] mod400_shift[of y] by (simp add: algebra_simps)
  show ?thesis
    unfolding DayFromYear_def DaysInYear_def a b c
    using mod100_mod4[of y] mod400_mod100[of y] by auto
qed

lemma DaysInYear_bounds: "365 \<le> DaysInYear y \<and> DaysInYear y \<le> 366"
  by (simp add: DaysInYear_def)

lemma DayFromYear_less_succ: "DayFromYear y < DayFromYear (y + 1)"
  using DayFromYear_step[of y] DaysInYear_bounds[of y] by linarith

text \<open>
  \<open>YearFromTime t\<close> is the largest \<open>y\<close> with \<open>DayFromYear y \<le> Day t\<close>. It is computed
  by a search from the estimate \<open>1970 + Day t div 365\<close>: down while the year starts
  after the day, then up while the next year starts on or before it.
\<close>

function year_down :: "int \<Rightarrow> int \<Rightarrow> int" where
  "year_down d y = (if d < DayFromYear y then year_down d (y - 1) else y)"
  by pat_completeness auto
termination
proof (relation "measure (\<lambda>(d, y). nat (DayFromYear y - d))")
  show "wf (measure (\<lambda>(d, y). nat (DayFromYear y - d)))" by simp
next
  fix d y :: int
  assume "d < DayFromYear y"
  moreover have "DayFromYear (y - 1) < DayFromYear y"
    using DayFromYear_less_succ[of "y - 1"] by simp
  ultimately show "((d, y - 1), (d, y)) \<in> measure (\<lambda>(d, y). nat (DayFromYear y - d))"
    by simp
qed

function year_up :: "int \<Rightarrow> int \<Rightarrow> int" where
  "year_up d y = (if DayFromYear (y + 1) \<le> d then year_up d (y + 1) else y)"
  by pat_completeness auto
termination
proof (relation "measure (\<lambda>(d, y). nat (d + 1 - DayFromYear (y + 1)))")
  show "wf (measure (\<lambda>(d, y). nat (d + 1 - DayFromYear (y + 1))))" by simp
next
  fix d y :: int
  assume "DayFromYear (y + 1) \<le> d"
  moreover have "DayFromYear (y + 1) < DayFromYear (y + 1 + 1)"
    by (rule DayFromYear_less_succ)
  ultimately show "((d, y + 1), (d, y)) \<in> measure (\<lambda>(d, y). nat (d + 1 - DayFromYear (y + 1)))"
    by simp
qed

declare year_down.simps [simp del] year_up.simps [simp del]

definition YearFromTime :: "int \<Rightarrow> int" where
  "YearFromTime t = (let d = Day t in year_up d (year_down d (1970 + d div 365)))"

definition InLeapYear :: "int \<Rightarrow> int" where
  "InLeapYear t = (if DaysInYear (YearFromTime t) = 366 then 1 else 0)"

definition DayWithinYear :: "int \<Rightarrow> int" where
  "DayWithinYear t = Day t - DayFromYear (YearFromTime t)"

text \<open>
  \<open>month_start m leap\<close> is the day within the year on which month \<open>m\<close> (0 = January)
  starts; these are the bounds of the specification's table for \<open>MonthFromTime\<close> and the
  offsets of its table for \<open>DateFromTime\<close>.
\<close>

definition month_start :: "int \<Rightarrow> int \<Rightarrow> int" where
  "month_start m leap =
     (if m = 0 then 0 else if m = 1 then 31 else if m = 2 then 59 + leap
      else if m = 3 then 90 + leap else if m = 4 then 120 + leap
      else if m = 5 then 151 + leap else if m = 6 then 181 + leap
      else if m = 7 then 212 + leap else if m = 8 then 243 + leap
      else if m = 9 then 273 + leap else if m = 10 then 304 + leap
      else 334 + leap)"

definition MonthFromTime :: "int \<Rightarrow> int" where
  "MonthFromTime t =
     (let d = DayWithinYear t; leap = InLeapYear t in
      if d < 31 then 0 else if d < 59 + leap then 1 else if d < 90 + leap then 2
      else if d < 120 + leap then 3 else if d < 151 + leap then 4
      else if d < 181 + leap then 5 else if d < 212 + leap then 6
      else if d < 243 + leap then 7 else if d < 273 + leap then 8
      else if d < 304 + leap then 9 else if d < 334 + leap then 10
      else 11)"

definition DateFromTime :: "int \<Rightarrow> int" where
  "DateFromTime t = DayWithinYear t - month_start (MonthFromTime t) (InLeapYear t) + 1"

text \<open>
  \<open>MakeDay year month date\<close>: the day number of the first of the month \<open>month mod 12\<close>
  of the year \<open>year + month div 12\<close>, plus \<open>date - 1\<close>.
\<close>

definition MakeDay :: "int \<Rightarrow> int \<Rightarrow> int \<Rightarrow> int" where
  "MakeDay year month dt =
     (let ym = year + month div 12; mn = month mod 12 in
      DayFromYear ym + month_start mn (if DaysInYear ym = 366 then 1 else 0) + dt - 1)"

definition MakeDate :: "int \<Rightarrow> int \<Rightarrow> int" where
  "MakeDate day time = day * msPerDay + time"

definition TimeClip :: "int \<Rightarrow> int option" where
  "TimeClip t = (if \<bar>t\<bar> > 8640000000000000 then None else Some t)"

subsection \<open>The methods the code calls\<close>

definition getDate :: "int \<Rightarrow> int" where
  "getDate t = DateFromTime t"

definition setDate :: "int \<Rightarrow> int \<Rightarrow> int option" where
  "setDate t dt =
     TimeClip (MakeDate (MakeDay (YearFromTime t) (MonthFromTime t) dt) (TimeWithinDay t))"

definition digit_char :: "nat \<Rightarrow> char" where
  "digit_char n = char_of (48 + n mod 10)"

fun pad :: "nat \<Rightarrow> nat \<Rightarrow> string" where
  "pad 0 n = []"
| "pad (Suc k) n = pad k (n div 10) @ [digit_char n]"

definition year_string :: "int \<Rightarrow> string" where
  "year_string y =
     (if 0 \<le> y \<and> y \<le> 9999 then pad 4 (nat y)
      else (if y < 0 then ''-'' else ''+'') @ pad 6 (nat \<bar>y\<bar>))"

definition toISOString :: "int \<Rightarrow> string" where
  "toISOString t =
     (let ms = TimeWithinDay t in
      year_string (YearFromTime t) @ ''-'' @ pad 2 (nat (MonthFromTime t + 1)) @ ''-'' @
      pad 2 (nat (DateFromTime t)) @ ''T'' @
      pad 2 (nat (ms div 3600000)) @ '':'' @ pad 2 (nat (ms div 60000 mod 60)) @ '':'' @
      pad 2 (nat (ms div 1000 mod 60)) @ ''.'' @ pad 3 (nat (ms mod 1000)) @ ''Z'')"

definition split_T_0 :: "string \<Rightarrow> string" where
  \<comment> \<open>\<open>s.split("T")[0]\<close>: the text before the first \<open>T\<close>, all of it when there is none\<close>
  "split_T_0 s = takeWhile (\<lambda>c. c \<noteq> CHR ''T'') s"

subsection \<open>Parsing (\<open>new Date(string)\<close>)\<close>

text \<open>
  The date-only form \<open>YYYY-MM-DD\<close> of the specification's date-time string format, for
  a day that exists, is the UTC midnight of that day. What \<open>Date.parse\<close> returns for
  any other string (the time forms, and whatever the engine's fallback accepts) is the
  parameter \<open>engine\<close>.
\<close>

definition digit_val :: "char \<Rightarrow> int option" where
  "digit_val c = (if CHR ''0'' \<le> c \<and> c \<le> CHR ''9'' then Some (int (of_char c) - 48) else None)"

fun date_fields :: "string \<Rightarrow> (int \<times> int \<times> int) option" where
  "date_fields [y1, y2, y3, y4, p, m1, m2, q, d1, d2] =
     (case (digit_val y1, digit_val y2, digit_val y3, digit_val y4,
            digit_val m1, digit_val m2, digit_val d1, digit_val d2) of
        (Some a, Some b, Some c, Some d, Some e, Some f, Some g, Some h) \<Rightarrow>
          if p = CHR ''-'' \<and> q = CHR ''-''
          then Some (1000 * a + 100 * b + 10 * c + d, 10 * e + f, 10 * g + h)
          else None
      | _ \<Rightarrow> None)"
| "date_fields _ = None"

definition DaysInMonth :: "int \<Rightarrow> int \<Rightarrow> int" where
  "DaysInMonth y m =
     (if m = 2 then (if DaysInYear y = 366 then 29 else 28)
      else if m = 4 \<or> m = 6 \<or> m = 9 \<or> m = 11 then 30 else 31)"

definition date_only :: "string \<Rightarrow> int option" where
  "date_only s =
     (case date_fields s of
        None \<Rightarrow> None
      | Some (y, m, d) \<Rightarrow>
          if 1 \<le> m \<and> m \<le> 12 \<and> 1 \<le> d \<and> d \<le> DaysInMonth y m
          then Some (MakeDate (MakeDay y (m - 1) d) 0)
          else None)"

definition new_Date :: "(string \<Rightarrow> int option) \<Rightarrow> string \<Rightarrow> int option" where
  "new_Date engine s =
     (case (case date_only s of Some t \<Rightarrow> Some t | None \<Rightarrow> engine s) of
        None \<Rightarrow> None
      | Some t \<Rightarrow> TimeClip t)"

text \<open>
  \<open>current.setDate(current.getDate() + 1)\<close> moves a date one day ahead (or to \<open>NaN\<close> past
  the end of the time range), so the loop of \<open>getDatesInRange\<close> terminates.
\<close>

lemma MonthFromTime_range: "0 \<le> MonthFromTime t \<and> MonthFromTime t \<le> 11"
  by (simp add: MonthFromTime_def Let_def)

lemma Day_time_split: "Day t * msPerDay + TimeWithinDay t = t"
  by (simp add: Day_def TimeWithinDay_def)

lemma setDate_next: "setDate t (getDate t + 1) = TimeClip (t + msPerDay)"
proof -
  have m: "MonthFromTime t div 12 = 0" "MonthFromTime t mod 12 = MonthFromTime t"
    using MonthFromTime_range[of t] by simp_all
  have "MakeDay (YearFromTime t) (MonthFromTime t) (DateFromTime t + 1) = Day t + 1"
    by (simp add: MakeDay_def m DateFromTime_def DayWithinYear_def InLeapYear_def)
  then have "MakeDate (MakeDay (YearFromTime t) (MonthFromTime t) (getDate t + 1)) (TimeWithinDay t)
      = t + msPerDay"
    using Day_time_split[of t] by (simp add: MakeDate_def getDate_def algebra_simps)
  then show ?thesis by (simp add: setDate_def)
qed

function dates_loop :: "int option \<Rightarrow> int option \<Rightarrow> string list \<Rightarrow> string list" where
  "dates_loop current endDate dates =
     (case (current, endDate) of
        (Some c, Some e) \<Rightarrow>
          if c < e
          then dates_loop (setDate c (getDate c + 1)) endDate
                 (dates @ [split_T_0 (toISOString c)])
          else dates
      | _ \<Rightarrow> dates)"
  by pat_completeness auto
termination
  by (relation "measure (\<lambda>(current, endDate, dates).
          case (current, endDate) of (Some c, Some e) \<Rightarrow> nat (e - c) | _ \<Rightarrow> 0)")
     (auto simp: setDate_next TimeClip_def msPerDay_def)

declare dates_loop.simps [simp del]

definition getDatesInRange :: "(string \<Rightarrow> int option) \<Rightarrow> string \<Rightarrow> string \<Rightarrow> string list" where
  "getDatesInRange engine start end' =
     (let dates = []; current = new_Date engine start; endDate = new_Date engine end'
      in dates_loop current endDate dates)"

section \<open>Availability (the rooms module, \<open>getAvailableRooms\<close>)\<close>

definition isOverlapping :: "string \<Rightarrow> string \<Rightarrow> string \<Rightarrow> string \<Rightarrow> bool" where
  "isOverlapping resCheckIn resCheckOut checkIn' checkOut' =
     (resCheckIn < checkOut' \<and> resCheckOut > checkIn')"

text \<open>
  Ids are strings in the store, so \<open>toString()\<close> is the identity on them and
  \<open>includes\<close> compares ids, and dates, by equality.
\<close>

definition getAvailableRooms ::
    "(string \<Rightarrow> int option) \<Rightarrow> db \<Rightarrow> string \<Rightarrow> string \<Rightarrow> (doc_id \<times> room) list" where
  "getAvailableRooms engine s checkIn' checkOut' =
     (let allRooms = filter (\<lambda>r. isAvailable (snd r) = True) (rooms s);
          reservations = reservations s;
          bookedRoomIds =
            map (\<lambda>res. reservation.roomId (snd res))
              (filter (\<lambda>res.
                   (status (snd res) = Pending \<or> status (snd res) = Confirmed) \<and>
                   isOverlapping (reservation.checkIn (snd res)) (reservation.checkOut (snd res))
                     checkIn' checkOut')
                 reservations);
          blockedDates = blockedDates s;
          requestedDates = getDatesInRange engine checkIn' checkOut';
          blockedRoomIds =
            map (\<lambda>blocked. blockedDate.roomId (snd blocked))
              (filter (\<lambda>blocked. date (snd blocked) \<in> set requestedDates) blockedDates);
          availableRooms =
            filter (\<lambda>room. fst room \<notin> set bookedRoomIds \<and> fst room \<notin> set blockedRoomIds)
              allRooms
      in sort_by_order availableRooms)"

text \<open>
  The calendar dates of the schema: \<open>valid_date s\<close> says that \<open>s\<close> has the form
  \<open>YYYY-MM-DD\<close> and names a day that exists.
\<close>

definition valid_date :: "string \<Rightarrow> bool" where
  \<comment> \<open>a string \<open>YYYY-MM-DD\<close> that names a day of the calendar\<close>
  "valid_date s = (date_only s \<noteq> None)"

section \<open>Example stores\<close>

text \<open>
  The store of the specification's example: room A (order 1) and room B (order 2), both
  bookable, A with a confirmed reservation from 2026-02-10 to 2026-02-12; and one
  blocked night, 2026-03-01, for room B. \<open>no_fallback\<close> is an engine that parses nothing
  but the date-only form. The other stores vary it: \<open>example_db2\<close> holds a cancelled and
  a completed reservation and a blocked night for room A, \<open>ledger_db\<close> a confirmed and a
  pending reservation of the same guest, \<open>empty_db\<close> nothing, and in \<open>closed_db\<close> room B is
  switched off.
\<close>

definition no_fallback :: "string \<Rightarrow> int option" where
  "no_fallback s = None"

definition room_A :: room where
  "room_A = \<lparr>name = ''A'', nameKo = ''A'', nameEn = ''Room A'',
     description = \<lparr>vi = '''', ko = '''', en = ''''\<rparr>,
     price = 50000, capacity = 4, bedType = ''king'', amenities = [''wifi''], images = [],
     isAvailable = True, order = 1\<rparr>"

definition room_B :: room where
  "room_B = room_A\<lparr>name := ''B'', nameKo := ''B'', nameEn := ''Room B'', order := 2\<rparr>"

definition booking :: reservation where
  "booking = \<lparr>roomId = 1, guestName = ''Lan'', guestEmail = ''lan@example.com'',
     guestPhone = ''0900000000'', guestCountry = ''VN'',
     checkIn = ''2026-02-10'', checkOut = ''2026-02-12'', adults = 2, children = 0,
     totalPrice = num_of_int 100000, status = Confirmed, specialRequests = None,
     createdAt = 1000, updatedAt = 1000\<rparr>"

definition example_db :: db where
  "example_db = \<lparr>rooms = [(2, room_B), (1, room_A)], reservations = [(10, booking)],
     blockedDates = [(20, \<lparr>blockedDate.roomId = 2, date = ''2026-03-01'', reason = None\<rparr>)],
     nextId = 21\<rparr>"

definition example_db2 :: db where
  "example_db2 = \<lparr>rooms = [(1, room_A)],
     reservations = [(10, booking\<lparr>status := Cancelled\<rparr>),
       (11, booking\<lparr>status := Completed, checkIn := ''2026-02-01'', checkOut := ''2026-02-28''\<rparr>)],
     blockedDates = [(20, \<lparr>blockedDate.roomId = 1, date = ''2026-02-20'', reason = None\<rparr>)],
     nextId = 21\<rparr>"

definition pending_booking :: reservation where
  "pending_booking = booking\<lparr>status := Pending\<rparr>"

definition ledger_db :: db where
  "ledger_db = \<lparr>rooms = [(1, room_A)],
     reservations = [(10, booking), (11, pending_booking)], blockedDates = [], nextId = 12\<rparr>"

definition revenue_db :: db where
  "revenue_db = \<lparr>rooms = [(1, room_A)],
     reservations = [(10, booking), (11, pending_booking\<lparr>totalPrice := num_of_int 70000\<rparr>),
       (12, booking\<lparr>status := Cancelled, totalPrice := num_of_int 30000\<rparr>),
       (13, booking\<lparr>status := Completed, totalPrice := num_of_int 50000\<rparr>)],
     blockedDates = [], nextId = 14\<rparr>"

definition settled_db :: db where
  "settled_db = \<lparr>rooms = [(1, room_A)],
     reservations = [(10, booking),
       (13, booking\<lparr>status := Completed, totalPrice := num_of_int 50000\<rparr>)],
     blockedDates = [], nextId = 14\<rparr>"

definition rounding_db :: db where
  "rounding_db = \<lparr>rooms = [(1, room_A)],
     reservations = [(10, booking\<lparr>totalPrice := num_of_int 9007199254740992\<rparr>),
       (11, booking\<lparr>status := Completed, totalPrice := num_of_int 1\<rparr>)],
     blockedDates = [], nextId = 12\<rparr>"

definition empty_db :: db where
  "empty_db = \<lparr>rooms = [], reservations = [], blockedDates = [], nextId = 0\<rparr>"

definition closed_db :: db where
  "closed_db = example_db\<lparr>rooms := [(2, room_B\<lparr>isAvailable := False\<rparr>), (1, room_A)]\<rparr>"

section \<open>Properties of the date model\<close>

subsection \<open>The year of a day\<close>

text \<open>
  \<open>YearFromTime\<close> meets its specification: it is the one year that holds the day.
\<close>

lemma DayFromYear_mono_aux: "DayFromYear y + 365 * int n \<le> DayFromYear (y + int n)"
proof (induction n)
  case 0
  show ?case by simp
next
  case (Suc n)
  have "y + int (Suc n) = y + int n + 1" by simp
  then have "DayFromYear (y + int (Suc n)) = DayFromYear (y + int n) + DaysInYear (y + int n)"
    using DayFromYear_step[of "y + int n"] by (simp only:)
  then show ?case using Suc DaysInYear_bounds[of "y + int n"] by simp
qed

lemma DayFromYear_gap: "y \<le> y' \<Longrightarrow> DayFromYear y + 365 * (y' - y) \<le> DayFromYear y'"
  using DayFromYear_mono_aux[of y "nat (y' - y)"] by simp

lemma DayFromYear_strict_mono: "y < y' \<Longrightarrow> DayFromYear y < DayFromYear y'"
  using DayFromYear_gap[of y y'] by simp

lemma DayFromYear_mono: "y \<le> y' \<Longrightarrow> DayFromYear y \<le> DayFromYear y'"
  using DayFromYear_gap[of y y'] by simp

lemma year_down_le: "DayFromYear (year_down d y) \<le> d"
proof (induction d y rule: year_down.induct)
  case (1 d y)
  show ?case
  proof (cases "d < DayFromYear y")
    case True
    then show ?thesis using 1 by (subst year_down.simps) simp
  next
    case False
    then show ?thesis by (subst year_down.simps) simp
  qed
qed

lemma year_up_bounds:
  "DayFromYear y \<le> d \<Longrightarrow>
     DayFromYear (year_up d y) \<le> d \<and> d < DayFromYear (year_up d y + 1)"
proof (induction d y rule: year_up.induct)
  case (1 d y)
  show ?case
  proof (cases "DayFromYear (y + 1) \<le> d")
    case True
    then show ?thesis using 1 by (subst (1 2) year_up.simps) simp
  next
    case False
    then show ?thesis using 1 by (subst (1 2) year_up.simps) simp
  qed
qed

lemma YearFromTime_bounds:
  "DayFromYear (YearFromTime t) \<le> Day t \<and> Day t < DayFromYear (YearFromTime t + 1)"
  unfolding YearFromTime_def Let_def by (rule year_up_bounds) (rule year_down_le)

lemma YearFromTime_unique:
  assumes "DayFromYear y \<le> Day t" "Day t < DayFromYear (y + 1)"
  shows "YearFromTime t = y"
proof (rule ccontr)
  assume ne: "YearFromTime t \<noteq> y"
  show False
  proof (cases "YearFromTime t < y")
    case True
    then have "DayFromYear (YearFromTime t + 1) \<le> DayFromYear y"
      by (intro DayFromYear_mono) simp
    then show False using YearFromTime_bounds[of t] assms by linarith
  next
    case False
    then have "DayFromYear (y + 1) \<le> DayFromYear (YearFromTime t)"
      using ne by (intro DayFromYear_mono) simp
    then show False using YearFromTime_bounds[of t] assms by linarith
  qed
qed

subsection \<open>Parsing a calendar date and printing it\<close>

text \<open>
  The time value of a calendar date has that date's year, month and day, and
  \<open>toISOString\<close> prints it as the string it was parsed from.
\<close>

lemma month_cases:
  fixes m :: int
  assumes "1 \<le> m" "m \<le> 12"
  shows "m = 1 \<or> m = 2 \<or> m = 3 \<or> m = 4 \<or> m = 5 \<or> m = 6 \<or> m = 7 \<or> m = 8 \<or> m = 9
    \<or> m = 10 \<or> m = 11 \<or> m = 12"
  using assms by arith

lemma MakeDay_month:
  assumes "1 \<le> m" "m \<le> 12"
  shows "MakeDay y (m - 1) d =
    DayFromYear y + month_start (m - 1) (if DaysInYear y = 366 then 1 else 0) + d - 1"
proof -
  have "(m - 1) div 12 = 0" "(m - 1) mod 12 = m - 1" using assms by simp_all
  then show ?thesis by (simp add: MakeDay_def)
qed

lemma day_in_year:
  assumes "1 \<le> m" "m \<le> 12" "1 \<le> d" "d \<le> DaysInMonth y m"
  shows "0 \<le> month_start (m - 1) (if DaysInYear y = 366 then 1 else 0) + d - 1"
    and "month_start (m - 1) (if DaysInYear y = 366 then 1 else 0) + d - 1 < DaysInYear y"
  using month_cases[OF assms(1,2)] assms(3,4) DaysInYear_bounds[of y]
  by (elim disjE; simp add: month_start_def DaysInMonth_def split: if_splits)+

lemma Day_MakeDate: "Day (MakeDate k 0) = k" "TimeWithinDay (MakeDate k 0) = 0"
  by (simp_all add: Day_def TimeWithinDay_def MakeDate_def msPerDay_def)

lemma fields_of_day:
  assumes "1 \<le> m" "m \<le> 12" "1 \<le> d" "d \<le> DaysInMonth y m"
  defines "t \<equiv> MakeDate (MakeDay y (m - 1) d) 0"
  shows "YearFromTime t = y" and "MonthFromTime t = m - 1" and "DateFromTime t = d"
proof -
  let ?l = "if DaysInYear y = 366 then 1 else 0 :: int"
  have day: "Day t = DayFromYear y + month_start (m - 1) ?l + d - 1"
    by (simp add: t_def Day_MakeDate MakeDay_month[OF assms(1,2)])
  show y: "YearFromTime t = y"
    using day day_in_year[OF assms(1-4)] DayFromYear_step[of y]
    by (intro YearFromTime_unique) simp_all
  have leap: "InLeapYear t = ?l" by (simp add: InLeapYear_def y)
  have dwy: "DayWithinYear t = month_start (m - 1) ?l + d - 1"
    by (simp add: DayWithinYear_def y day)
  show mo: "MonthFromTime t = m - 1"
    unfolding MonthFromTime_def Let_def leap dwy
    using month_cases[OF assms(1,2)] assms(3,4)
    by (elim disjE; simp add: month_start_def DaysInMonth_def split: if_splits)
  show "DateFromTime t = d"
    by (simp add: DateFromTime_def mo leap dwy)
qed

lemma digit_val_char:
  assumes "digit_val c = Some v"
  shows "0 \<le> v" "v \<le> 9" "digit_char (nat v) = c" "c \<noteq> CHR ''T''"
proof -
  have b: "48 \<le> (of_char c :: nat)" "(of_char c :: nat) \<le> 57" and v: "v = int (of_char c) - 48"
    using assms by (auto simp: digit_val_def less_eq_char_def split: if_splits)
  show "0 \<le> v" "v \<le> 9" using b v by simp_all
  have "nat v = of_char c - 48" using v b by simp
  then have "48 + nat v mod 10 = (of_char c :: nat)" using b by simp
  then show "digit_char (nat v) = c" by (simp add: digit_char_def)
  show "c \<noteq> CHR ''T''" using b by auto
qed

lemma digit_step:
  fixes q r :: nat
  assumes "r < 10"
  shows "(10 * q + r) div 10 = q" "digit_char (10 * q + r) = digit_char r"
  using assms by (simp_all add: digit_char_def)

lemma pad_unfold:
  "pad 2 n = [digit_char (n div 10), digit_char n]"
  "pad 3 n = [digit_char (n div 10 div 10), digit_char (n div 10), digit_char n]"
  "pad 4 n = [digit_char (n div 10 div 10 div 10), digit_char (n div 10 div 10),
              digit_char (n div 10), digit_char n]"
proof -
  have n: "(2::nat) = Suc (Suc 0)" "(3::nat) = Suc (Suc (Suc 0))"
    "(4::nat) = Suc (Suc (Suc (Suc 0)))" by simp_all
  show "pad 2 n = [digit_char (n div 10), digit_char n]"
    unfolding n(1) by simp
  show "pad 3 n = [digit_char (n div 10 div 10), digit_char (n div 10), digit_char n]"
    unfolding n(2) by simp
  show "pad 4 n = [digit_char (n div 10 div 10 div 10), digit_char (n div 10 div 10),
              digit_char (n div 10), digit_char n]"
    unfolding n(3) by simp
qed

lemma pad2_digits:
  assumes "a < 10" "b < 10"
  shows "pad 2 (10 * a + b) = [digit_char a, digit_char b]"
  unfolding pad_unfold using assms by (simp only: digit_step)

lemma pad4_digits:
  assumes "a < 10" "b < 10" "c < 10" "d < 10"
  shows "pad 4 (1000 * a + 100 * b + 10 * c + d)
    = [digit_char a, digit_char b, digit_char c, digit_char d]"
proof -
  have e: "1000 * a + 100 * b + 10 * c + d = 10 * (10 * (10 * a + b) + c) + d" by simp
  show ?thesis unfolding e pad_unfold using assms by (simp only: digit_step)
qed

lemma digit_char_zero: "digit_char 0 = CHR ''0''"
  by code_simp

lemma pad_zero: "pad 2 0 = ''00''" "pad 3 0 = ''000''"
  unfolding pad_unfold by (simp_all add: digit_char_zero)

lemma date_fields_string:
  assumes "date_fields s = Some (y, m, d)"
  shows "0 \<le> y" "y \<le> 9999"
    and "s = pad 4 (nat y) @ ''-'' @ pad 2 (nat m) @ ''-'' @ pad 2 (nat d)"
    and "CHR ''T'' \<notin> set s"
proof -
  obtain y1 y2 y3 y4 p m1 m2 q d1 d2 where s: "s = [y1, y2, y3, y4, p, m1, m2, q, d1, d2]"
    using assms by (cases s rule: date_fields.cases) simp_all
  obtain a b c e f g h i where
    dv: "digit_val y1 = Some a" "digit_val y2 = Some b" "digit_val y3 = Some c"
        "digit_val y4 = Some e" "digit_val m1 = Some f" "digit_val m2 = Some g"
        "digit_val d1 = Some h" "digit_val d2 = Some i"
    and pq: "p = CHR ''-''" "q = CHR ''-''"
    and y: "y = 1000 * a + 100 * b + 10 * c + e" and m: "m = 10 * f + g" and d: "d = 10 * h + i"
    using assms unfolding s by (auto split: option.splits if_splits)
  note A = digit_val_char[OF dv(1)] and B = digit_val_char[OF dv(2)]
    and C = digit_val_char[OF dv(3)] and E = digit_val_char[OF dv(4)]
    and F = digit_val_char[OF dv(5)] and G = digit_val_char[OF dv(6)]
    and H = digit_val_char[OF dv(7)] and I = digit_val_char[OF dv(8)]
  show "0 \<le> y" "y \<le> 9999" using A(1,2) B(1,2) C(1,2) E(1,2) unfolding y by simp_all
  have ny: "nat y = 1000 * nat a + 100 * nat b + 10 * nat c + nat e"
    using A(1) B(1) C(1) E(1) unfolding y by (simp add: nat_add_distrib nat_mult_distrib)
  have nm: "nat m = 10 * nat f + nat g"
    using F(1) G(1) unfolding m by (simp add: nat_add_distrib nat_mult_distrib)
  have nd: "nat d = 10 * nat h + nat i"
    using H(1) I(1) unfolding d by (simp add: nat_add_distrib nat_mult_distrib)
  have "pad 4 (nat y) = [y1, y2, y3, y4]"
    unfolding ny using A B C E by (subst pad4_digits) simp_all
  moreover have "pad 2 (nat m) = [m1, m2]"
    unfolding nm using F G by (subst pad2_digits) simp_all
  moreover have "pad 2 (nat d) = [d1, d2]"
    unfolding nd using H I by (subst pad2_digits) simp_all
  ultimately show "s = pad 4 (nat y) @ ''-'' @ pad 2 (nat m) @ ''-'' @ pad 2 (nat d)"
    by (simp add: s pq)
  show "CHR ''T'' \<notin> set s"
    using A(4) B(4) C(4) E(4) F(4) G(4) H(4) I(4) by (auto simp: s pq)
qed

lemma takeWhile_before:
  assumes "x \<notin> set p"
  shows "takeWhile (\<lambda>c. c \<noteq> x) (p @ x # r) = p"
  using assms by (induction p) auto

lemma date_only_iso:
  assumes "date_only s = Some t"
  shows "split_T_0 (toISOString t) = s"
proof -
  obtain y m d where f: "date_fields s = Some (y, m, d)"
    and v: "1 \<le> m" "m \<le> 12" "1 \<le> d" "d \<le> DaysInMonth y m"
    and t: "t = MakeDate (MakeDay y (m - 1) d) 0"
    using assms by (auto simp: date_only_def split: option.splits if_splits)
  note fs = date_fields_string[OF f]
  have ys: "year_string y = pad 4 (nat y)" using fs(1,2) by (simp add: year_string_def)
  have m1: "nat (m - 1 + 1) = nat m" by simp
  have "toISOString t = s @ CHR ''T'' # ''00:00:00.000Z''"
    unfolding toISOString_def Let_def
    unfolding t fields_of_day[OF v] Day_MakeDate ys m1
    by (subst fs(3)) (simp add: pad_zero)
  then show ?thesis using fs(4) by (simp add: split_T_0_def takeWhile_before)
qed

subsection \<open>The loop reaches every day of the range\<close>

lemma dates_loop_acc: "set acc \<subseteq> set (dates_loop current endDate acc)"
proof (induction current endDate acc rule: dates_loop.induct)
  case (1 current endDate dates)
  show ?case
  proof (cases "\<exists>c e. current = Some c \<and> endDate = Some e \<and> c < e")
    case True
    then obtain c e where ce: "current = Some c" "endDate = Some e" "c < e" by blast
    have "set (dates @ [split_T_0 (toISOString c)])
        \<subseteq> set (dates_loop (setDate c (getDate c + 1)) endDate
               (dates @ [split_T_0 (toISOString c)]))"
      using ce by (intro 1) simp_all
    then show ?thesis using ce by (subst dates_loop.simps) auto
  next
    case False
    then show ?thesis by (subst dates_loop.simps) (auto split: option.splits)
  qed
qed

lemma dates_loop_step:
  assumes "c < e"
  shows "dates_loop (Some c) (Some e) acc
    = dates_loop (TimeClip (c + msPerDay)) (Some e) (acc @ [split_T_0 (toISOString c)])"
  using assms by (subst dates_loop.simps) (simp add: setDate_next)

lemma dates_loop_mem:
  assumes "t = c + int k * msPerDay" "t < e"
    and "- 8640000000000000 \<le> c" "e \<le> 8640000000000000"
  shows "split_T_0 (toISOString t) \<in> set (dates_loop (Some c) (Some e) acc)"
  using assms
proof (induction k arbitrary: c acc)
  case 0
  then have "c < e" "t = c" by simp_all
  then show ?case
    using dates_loop_acc[of "acc @ [split_T_0 (toISOString c)]" "TimeClip (c + msPerDay)" "Some e"]
    by (simp add: dates_loop_step)
next
  case (Suc k)
  have pos: "0 < msPerDay" by (simp add: msPerDay_def)
  have "0 \<le> int k * msPerDay" using pos by simp
  then have le: "c + msPerDay \<le> t" using Suc.prems(1) by (simp add: algebra_simps)
  then have lt: "c < e" using Suc.prems(2) pos by linarith
  have clip: "TimeClip (c + msPerDay) = Some (c + msPerDay)"
    using le Suc.prems(2,3,4) pos by (simp add: TimeClip_def)
  have "split_T_0 (toISOString t)
      \<in> set (dates_loop (Some (c + msPerDay)) (Some e) (acc @ [split_T_0 (toISOString c)]))"
    using Suc.prems pos by (intro Suc.IH) (simp_all add: algebra_simps)
  then show ?case by (simp add: dates_loop_step[OF lt] clip)
qed

lemma date_only_day:
  assumes "date_only s = Some t"
  shows "t = Day t * msPerDay" and "\<bar>t\<bar> \<le> 8640000000000000"
proof -
  obtain y m d where f: "date_fields s = Some (y, m, d)"
    and v: "1 \<le> m" "m \<le> 12" "1 \<le> d" "d \<le> DaysInMonth y m"
    and t: "t = MakeDate (MakeDay y (m - 1) d) 0"
    using assms by (auto simp: date_only_def split: option.splits if_splits)
  show "t = Day t * msPerDay" unfolding t Day_MakeDate by (simp add: MakeDate_def)
  note fs = date_fields_string[OF f]
  have lo: "DayFromYear 0 \<le> DayFromYear y" and hi: "DayFromYear y \<le> DayFromYear 9999"
    using fs(1,2) by (auto intro: DayFromYear_mono)
  have "DayFromYear 0 = - 719528" "DayFromYear 9999 = 2932532"
    by (simp_all add: DayFromYear_def)
  then have "- 719528 \<le> MakeDay y (m - 1) d" "MakeDay y (m - 1) d \<le> 2932532 + 366"
    using lo hi day_in_year[OF v] DaysInYear_bounds[of y]
    unfolding MakeDay_month[OF v(1,2)] by linarith+
  then show "\<bar>t\<bar> \<le> 8640000000000000"
    unfolding t MakeDate_def msPerDay_def by simp
qed

lemma new_Date_date_only:
  assumes "date_only s = Some t"
  shows "new_Date engine s = Some t"
  using assms date_only_day(2)[OF assms] by (simp add: new_Date_def TimeClip_def)

lemma getDatesInRange_mem:
  assumes "date_only start = Some a" "date_only end' = Some b" "date_only s = Some t"
    and "a \<le> t" "t < b"
  shows "s \<in> set (getDatesInRange engine start end')"
proof -
  have pos: "0 < msPerDay" by (simp add: msPerDay_def)
  have "Day a \<le> Day t" using assms(4) pos unfolding Day_def by (intro zdiv_mono1)
  then have "t = a + int (nat (Day t - Day a)) * msPerDay"
    using date_only_day(1)[OF assms(1)] date_only_day(1)[OF assms(3)]
    by (simp add: algebra_simps)
  then have "split_T_0 (toISOString t) \<in> set (dates_loop (Some a) (Some b) [])"
    using assms(5) date_only_day(2)[OF assms(1)] date_only_day(2)[OF assms(2)]
    by (intro dates_loop_mem[where k = "nat (Day t - Day a)"]) simp_all
  then show ?thesis
    by (simp add: getDatesInRange_def new_Date_date_only assms(1,2) date_only_iso[OF assms(3)])
qed

subsection \<open>The order of date strings is the order of days\<close>

lemma digit_val_order:
  assumes "digit_val c = Some v" "digit_val c' = Some v'"
  shows "c < c' \<longleftrightarrow> v < v'" and "c = c' \<longleftrightarrow> v = v'"
proof -
  have v: "v = int (of_char c) - 48" "v' = int (of_char c') - 48"
    and b: "48 \<le> (of_char c :: nat)" "48 \<le> (of_char c' :: nat)"
    using assms by (auto simp: digit_val_def less_eq_char_def split: if_splits)
  show "c < c' \<longleftrightarrow> v < v'" unfolding v less_char_def by simp
  have "c = c' \<longleftrightarrow> (of_char c :: nat) = of_char c'" by simp
  then show "c = c' \<longleftrightarrow> v = v'" unfolding v using b by auto
qed

lemma date_fields_digits:
  assumes "date_fields s = Some (y, m, d)"
  obtains y1 y2 y3 y4 m1 m2 d1 d2 a b c e f g h i where
    "s = [y1, y2, y3, y4, CHR ''-'', m1, m2, CHR ''-'', d1, d2]"
    "digit_val y1 = Some a" "digit_val y2 = Some b" "digit_val y3 = Some c"
    "digit_val y4 = Some e" "digit_val m1 = Some f" "digit_val m2 = Some g"
    "digit_val d1 = Some h" "digit_val d2 = Some i"
    "y = 1000 * a + 100 * b + 10 * c + e" "m = 10 * f + g" "d = 10 * h + i"
proof -
  obtain y1 y2 y3 y4 p m1 m2 q d1 d2 where s: "s = [y1, y2, y3, y4, p, m1, m2, q, d1, d2]"
    using assms by (cases s rule: date_fields.cases) simp_all
  show thesis
    using assms that unfolding s by (auto split: option.splits if_splits)
qed

lemma lex_digits2:
  fixes a b a' b' :: int
  assumes "0 \<le> b" "b \<le> 9" "0 \<le> b'" "b' \<le> 9"
    and "a < a' \<or> a = a' \<and> b < b'"
  shows "10 * a + b < 10 * a' + b'"
  using assms by linarith

lemma date_fields_less:
  assumes "date_fields s = Some (y, m, d)" "date_fields s' = Some (y', m', d')" "s < s'"
  shows "y < y' \<or> y = y' \<and> (m < m' \<or> m = m' \<and> d < d')"
proof -
  obtain y1 y2 y3 y4 m1 m2 d1 d2 a b c e f g h i where
    s: "s = [y1, y2, y3, y4, CHR ''-'', m1, m2, CHR ''-'', d1, d2]"
    and dv: "digit_val y1 = Some a" "digit_val y2 = Some b" "digit_val y3 = Some c"
    "digit_val y4 = Some e" "digit_val m1 = Some f" "digit_val m2 = Some g"
    "digit_val d1 = Some h" "digit_val d2 = Some i"
    and n: "y = 1000 * a + 100 * b + 10 * c + e" "m = 10 * f + g" "d = 10 * h + i"
    using assms(1) by (rule date_fields_digits)
  obtain y1' y2' y3' y4' m1' m2' d1' d2' a' b' c' e' f' g' h' i' where
    s': "s' = [y1', y2', y3', y4', CHR ''-'', m1', m2', CHR ''-'', d1', d2']"
    and dv': "digit_val y1' = Some a'" "digit_val y2' = Some b'" "digit_val y3' = Some c'"
    "digit_val y4' = Some e'" "digit_val m1' = Some f'" "digit_val m2' = Some g'"
    "digit_val d1' = Some h'" "digit_val d2' = Some i'"
    and n': "y' = 1000 * a' + 100 * b' + 10 * c' + e'" "m' = 10 * f' + g'" "d' = 10 * h' + i'"
    using assms(2) by (rule date_fields_digits)
  note r = digit_val_char(1,2)
  note bounds = r[OF dv(1)] r[OF dv(2)] r[OF dv(3)] r[OF dv(4)] r[OF dv(5)] r[OF dv(6)]
    r[OF dv(7)] r[OF dv(8)] r[OF dv'(1)] r[OF dv'(2)] r[OF dv'(3)] r[OF dv'(4)]
    r[OF dv'(5)] r[OF dv'(6)] r[OF dv'(7)] r[OF dv'(8)]
  have lex: "a < a' \<or> a = a' \<and> (b < b' \<or> b = b' \<and> (c < c' \<or> c = c' \<and> (e < e' \<or> e = e' \<and>
     (f < f' \<or> f = f' \<and> (g < g' \<or> g = g' \<and> (h < h' \<or> h = h' \<and> i < i'))))))"
    using assms(3) unfolding s s'
    by (simp add: digit_val_order[OF dv(1) dv'(1)] digit_val_order[OF dv(2) dv'(2)]
        digit_val_order[OF dv(3) dv'(3)] digit_val_order[OF dv(4) dv'(4)]
        digit_val_order[OF dv(5) dv'(5)] digit_val_order[OF dv(6) dv'(6)]
        digit_val_order[OF dv(7) dv'(7)] digit_val_order[OF dv(8) dv'(8)])
  show ?thesis
    unfolding n n' using lex bounds by (elim disjE conjE; simp)
qed

lemma month_start_next:
  assumes "1 \<le> m" "m \<le> 11"
  shows "month_start m (if DaysInYear y = 366 then 1 else 0)
    = month_start (m - 1) (if DaysInYear y = 366 then 1 else 0) + DaysInMonth y m"
proof -
  have "m = 1 \<or> m = 2 \<or> m = 3 \<or> m = 4 \<or> m = 5 \<or> m = 6 \<or> m = 7 \<or> m = 8 \<or> m = 9
    \<or> m = 10 \<or> m = 11" using assms by arith
  then show ?thesis
    by (elim disjE; simp add: month_start_def DaysInMonth_def)
qed

lemma month_start_mono:
  assumes "0 \<le> a" "a \<le> b" "b \<le> 11" "0 \<le> l"
  shows "month_start a l \<le> month_start b l"
proof -
  have "a = 0 \<or> a = 1 \<or> a = 2 \<or> a = 3 \<or> a = 4 \<or> a = 5 \<or> a = 6 \<or> a = 7 \<or> a = 8
    \<or> a = 9 \<or> a = 10 \<or> a = 11" using assms by arith
  then show ?thesis
    using assms(2,3,4) by (elim disjE; simp add: month_start_def)
qed

lemma MakeDay_less:
  assumes v: "1 \<le> m" "m \<le> 12" "1 \<le> d" "d \<le> DaysInMonth y m"
    and v': "1 \<le> m'" "m' \<le> 12" "1 \<le> d'" "d' \<le> DaysInMonth y' m'"
    and lt: "y < y' \<or> y = y' \<and> (m < m' \<or> m = m' \<and> d < d')"
  shows "MakeDay y (m - 1) d < MakeDay y' (m' - 1) d'"
proof -
  let ?l = "\<lambda>y. if DaysInYear y = 366 then 1 else 0 :: int"
  note a = day_in_year[OF v] and a' = day_in_year[OF v']
  consider "y < y'" | "y = y'" "m < m'" | "y = y'" "m = m'" "d < d'" using lt by blast
  then show ?thesis
  proof cases
    case 1
    then have "DayFromYear (y + 1) \<le> DayFromYear y'" by (intro DayFromYear_mono) simp
    then show ?thesis
      unfolding MakeDay_month[OF v(1,2)] MakeDay_month[OF v'(1,2)]
      using a a' DayFromYear_step[of y] by linarith
  next
    case 2
    have "month_start m (?l y) \<le> month_start (m' - 1) (?l y)"
      using 2 v(1) v'(2) by (intro month_start_mono) simp_all
    moreover have "month_start m (?l y) = month_start (m - 1) (?l y) + DaysInMonth y m"
      using 2 v(1) v'(2) by (intro month_start_next) simp_all
    ultimately show ?thesis
      unfolding MakeDay_month[OF v(1,2)] MakeDay_month[OF v'(1,2)]
      using 2(1) v(4) v'(3) by simp
  next
    case 3
    then show ?thesis
      unfolding MakeDay_month[OF v(1,2)] MakeDay_month[OF v'(1,2)] by simp
  qed
qed

lemma date_only_less:
  assumes "date_only s = Some t" "date_only s' = Some t'" "s < s'"
  shows "t < t'"
proof -
  obtain y m d where f: "date_fields s = Some (y, m, d)"
    and v: "1 \<le> m" "m \<le> 12" "1 \<le> d" "d \<le> DaysInMonth y m"
    and t: "t = MakeDate (MakeDay y (m - 1) d) 0"
    using assms(1) by (auto simp: date_only_def split: option.splits if_splits)
  obtain y' m' d' where f': "date_fields s' = Some (y', m', d')"
    and v': "1 \<le> m'" "m' \<le> 12" "1 \<le> d'" "d' \<le> DaysInMonth y' m'"
    and t': "t' = MakeDate (MakeDay y' (m' - 1) d') 0"
    using assms(2) by (auto simp: date_only_def split: option.splits if_splits)
  have "MakeDay y (m - 1) d < MakeDay y' (m' - 1) d'"
    using v v' date_fields_less[OF f f' assms(3)] by (rule MakeDay_less)
  then show ?thesis unfolding t t' by (simp add: MakeDate_def msPerDay_def)
qed

lemma date_only_le:
  assumes "date_only s = Some t" "date_only s' = Some t'" "s \<le> s'"
  shows "t \<le> t'"
proof (cases "s = s'")
  case True
  then show ?thesis using assms(1,2) by simp
next
  case False
  then have "s < s'" using assms(3) by simp
  then show ?thesis using date_only_less[OF assms(1,2)] by simp
qed

subsection \<open>The loop yields only days of the range\<close>

text \<open>
  Every string the loop yields is the print of a day from \<open>current\<close> up to, not
  including, \<open>endDate\<close>; between two calendar dates such a print parses back to its
  day. So for calendar dates \<open>start\<close> and \<open>end\<close> the enumeration is the set of calendar
  date strings \<open>x\<close> with \<open>start \<le> x < end\<close>.
\<close>

lemma dates_loop_elems:
  assumes "x \<in> set (dates_loop current endDate acc)"
  shows "x \<in> set acc \<or>
    (\<exists>c e k. current = Some c \<and> endDate = Some e \<and> c + int k * msPerDay < e
        \<and> x = split_T_0 (toISOString (c + int k * msPerDay)))"
  using assms
proof (induction current endDate acc rule: dates_loop.induct)
  case (1 current endDate dates)
  show ?case
  proof (cases "\<exists>c e. current = Some c \<and> endDate = Some e \<and> c < e")
    case True
    then obtain c e where ce: "current = Some c" "endDate = Some e" "c < e" by blast
    have mem: "x \<in> set (dates_loop (TimeClip (c + msPerDay)) (Some e)
        (dates @ [split_T_0 (toISOString c)]))"
      using "1.prems" ce by (simp add: dates_loop_step)
    have "x \<in> set (dates @ [split_T_0 (toISOString c)]) \<or>
      (\<exists>c' e' k. setDate c (getDate c + 1) = Some c' \<and> endDate = Some e'
          \<and> c' + int k * msPerDay < e' \<and> x = split_T_0 (toISOString (c' + int k * msPerDay)))"
      using "1.IH"[OF refl ce(1) ce(2) ce(3)] mem ce by (simp add: setDate_next)
    then consider "x \<in> set dates" | "x = split_T_0 (toISOString c)"
      | k where "TimeClip (c + msPerDay) = Some (c + msPerDay)"
          "c + msPerDay + int k * msPerDay < e"
          "x = split_T_0 (toISOString (c + msPerDay + int k * msPerDay))"
      using ce by (auto simp: setDate_next TimeClip_def split: if_splits)
    then show ?thesis
    proof cases
      case 1
      then show ?thesis by simp
    next
      case 2
      then have "c + int 0 * msPerDay < e \<and> x = split_T_0 (toISOString (c + int 0 * msPerDay))"
        using ce by simp
      then show ?thesis using ce by blast
    next
      case 3
      have "c + msPerDay + int k * msPerDay = c + int (Suc k) * msPerDay"
        by (simp add: algebra_simps)
      then have "c + int (Suc k) * msPerDay < e
          \<and> x = split_T_0 (toISOString (c + int (Suc k) * msPerDay))"
        using 3(2,3) by (simp only:)
      then show ?thesis using ce by blast
    qed
  next
    case False
    then have "dates_loop current endDate dates = dates"
      by (subst dates_loop.simps) (auto split: option.splits)
    then show ?thesis using "1.prems" by simp
  qed
qed

lemma digit_val_digit_char: "digit_val (digit_char n) = Some (int (n mod 10))"
proof -
  have lt: "48 + n mod 10 < 256" by simp
  have o: "(of_char (digit_char n) :: nat) = 48 + n mod 10"
    unfolding digit_char_def using lt by simp
  have "(of_char CHR ''0'' :: nat) = 48" "(of_char CHR ''9'' :: nat) = 57" by simp_all
  then have "CHR ''0'' \<le> digit_char n" "digit_char n \<le> CHR ''9''"
    unfolding less_eq_char_def o by simp_all
  then show ?thesis by (simp add: digit_val_def o)
qed

lemma digit_char_not_T: "digit_char n \<noteq> CHR ''T''"
  using digit_val_char(4)[OF digit_val_digit_char] .

lemma digits2:
  fixes n :: nat
  assumes "n < 100"
  shows "10 * (n div 10 mod 10) + n mod 10 = n"
proof -
  have "n div 10 < 10" using assms by (intro less_mult_imp_div_less) simp
  then show ?thesis by simp
qed

lemma digits4:
  fixes n :: nat
  assumes "n < 10000"
  shows "1000 * (n div 10 div 10 div 10 mod 10) + 100 * (n div 10 div 10 mod 10)
    + 10 * (n div 10 mod 10) + n mod 10 = n"
proof -
  define a where "a = n div 10"
  define b where "b = a div 10"
  define c where "c = b div 10"
  have "a < 1000" unfolding a_def using assms by (intro less_mult_imp_div_less) simp
  then have "b < 100" unfolding b_def by (intro less_mult_imp_div_less) simp
  then have "c < 10" unfolding c_def by (intro less_mult_imp_div_less) simp
  then have c: "c mod 10 = c" by simp
  have n: "n = 10 * a + n mod 10" unfolding a_def by simp
  have a: "a = 10 * b + a mod 10" unfolding b_def by simp
  have b: "b = 10 * c + b mod 10" unfolding c_def by simp
  have "1000 * (c mod 10) + 100 * (b mod 10) + 10 * (a mod 10) + n mod 10 = n"
    unfolding c using n a b by linarith
  then show ?thesis unfolding a_def b_def c_def .
qed

lemma date_fields_pad:
  assumes "0 \<le> y" "y \<le> 9999" "0 \<le> m" "m \<le> 99" "0 \<le> d" "d \<le> 99"
  shows "date_fields (pad 4 (nat y) @ ''-'' @ pad 2 (nat m) @ ''-'' @ pad 2 (nat d))
    = Some (y, m, d)"
proof -
  have "int (1000 * (nat y div 10 div 10 div 10 mod 10) + 100 * (nat y div 10 div 10 mod 10)
      + 10 * (nat y div 10 mod 10) + nat y mod 10) = y"
    using assms(1,2) by (subst digits4) simp_all
  then have y: "1000 * int (nat y div 10 div 10 div 10 mod 10)
      + 100 * int (nat y div 10 div 10 mod 10)
      + 10 * int (nat y div 10 mod 10) + int (nat y mod 10) = y"
    by (simp only: of_nat_add of_nat_mult of_nat_numeral)
  have "int (10 * (nat m div 10 mod 10) + nat m mod 10) = m"
    using assms(3,4) by (subst digits2) simp_all
  then have m: "10 * int (nat m div 10 mod 10) + int (nat m mod 10) = m"
    by (simp only: of_nat_add of_nat_mult of_nat_numeral)
  have "int (10 * (nat d div 10 mod 10) + nat d mod 10) = d"
    using assms(5,6) by (subst digits2) simp_all
  then have d: "10 * int (nat d div 10 mod 10) + int (nat d mod 10) = d"
    by (simp only: of_nat_add of_nat_mult of_nat_numeral)
  show ?thesis
    unfolding pad_unfold by (simp add: digit_val_digit_char y m d)
qed

lemma month_date_valid:
  assumes "0 \<le> DayWithinYear t" "DayWithinYear t < DaysInYear (YearFromTime t)"
  shows "0 \<le> MonthFromTime t" "MonthFromTime t \<le> 11"
    "1 \<le> DateFromTime t" "DateFromTime t \<le> DaysInMonth (YearFromTime t) (MonthFromTime t + 1)"
proof -
  have l: "InLeapYear t = 0 \<and> DaysInYear (YearFromTime t) = 365
      \<or> InLeapYear t = 1 \<and> DaysInYear (YearFromTime t) = 366"
    by (simp add: InLeapYear_def DaysInYear_def)
  show "0 \<le> MonthFromTime t" "MonthFromTime t \<le> 11"
    using MonthFromTime_range[of t] by simp_all
  show "1 \<le> DateFromTime t"
    using assms l unfolding DateFromTime_def MonthFromTime_def Let_def month_start_def
    by (elim disjE conjE; simp)
  show "DateFromTime t \<le> DaysInMonth (YearFromTime t) (MonthFromTime t + 1)"
    using assms l unfolding DateFromTime_def MonthFromTime_def Let_def month_start_def
      DaysInMonth_def
    by (elim disjE conjE; simp)
qed

lemma iso_date_only:
  assumes "TimeWithinDay t = 0" "DayFromYear 0 \<le> Day t" "Day t < DayFromYear 10000"
  shows "date_only (split_T_0 (toISOString t)) = Some t"
proof -
  define y where "y = YearFromTime t"
  define m where "m = MonthFromTime t + 1"
  define d where "d = DateFromTime t"
  note yb = YearFromTime_bounds[of t, folded y_def]
  have y0: "0 \<le> y"
  proof (rule ccontr)
    assume "\<not> 0 \<le> y"
    then have "DayFromYear (y + 1) \<le> DayFromYear 0" by (intro DayFromYear_mono) simp
    then show False using yb assms(2) by linarith
  qed
  have y1: "y \<le> 9999"
  proof (rule ccontr)
    assume "\<not> y \<le> 9999"
    then have "DayFromYear 10000 \<le> DayFromYear y" by (intro DayFromYear_mono) simp
    then show False using yb assms(3) by linarith
  qed
  have dwy: "0 \<le> DayWithinYear t" "DayWithinYear t < DaysInYear (YearFromTime t)"
    using yb DayFromYear_step[of y] by (simp_all add: DayWithinYear_def y_def)
  note v = month_date_valid[OF dwy, folded y_def d_def]
  have mv: "1 \<le> m" "m \<le> 12" "1 \<le> d" "d \<le> DaysInMonth y m"
    using v by (simp_all add: m_def)
  have d31: "d \<le> 31" using mv(4) by (simp add: DaysInMonth_def split: if_splits)
  let ?s = "pad 4 (nat y) @ ''-'' @ pad 2 (nat m) @ ''-'' @ pad 2 (nat d)"
  have iso: "toISOString t = ?s @ CHR ''T'' # ''00:00:00.000Z''"
    unfolding toISOString_def Let_def assms(1) y_def[symmetric] m_def[symmetric] d_def[symmetric]
    using y0 y1 by (simp add: year_string_def pad_zero)
  have "CHR ''T'' \<notin> set ?s"
    unfolding pad_unfold by (simp add: digit_char_not_T digit_char_not_T[symmetric])
  then have "takeWhile (\<lambda>c. c \<noteq> CHR ''T'') (?s @ CHR ''T'' # ''00:00:00.000Z'') = ?s"
    by (rule takeWhile_before)
  then have s: "split_T_0 (toISOString t) = ?s"
    by (simp only: split_T_0_def iso)
  have f: "date_fields ?s = Some (y, m, d)"
    using y0 y1 mv d31 by (intro date_fields_pad) simp_all
  have "MakeDay y (m - 1) d = Day t"
    unfolding MakeDay_month[OF mv(1,2)]
    by (simp add: m_def d_def DateFromTime_def DayWithinYear_def InLeapYear_def y_def)
  then have t: "MakeDate (MakeDay y (m - 1) d) 0 = t"
    using Day_time_split[of t] assms(1) by (simp add: MakeDate_def)
  have "date_only ?s = Some (MakeDate (MakeDay y (m - 1) d) 0)"
    unfolding date_only_def f using mv by simp
  then show ?thesis unfolding s t .
qed

lemma date_only_range:
  assumes "date_only s = Some t"
  shows "TimeWithinDay t = 0" "DayFromYear 0 \<le> Day t" "Day t < DayFromYear 10000"
proof -
  obtain y m d where f: "date_fields s = Some (y, m, d)"
    and v: "1 \<le> m" "m \<le> 12" "1 \<le> d" "d \<le> DaysInMonth y m"
    and t: "t = MakeDate (MakeDay y (m - 1) d) 0"
    using assms by (auto simp: date_only_def split: option.splits if_splits)
  show "TimeWithinDay t = 0" unfolding t by (rule Day_MakeDate)
  note fs = date_fields_string[OF f]
  have "DayFromYear 0 \<le> DayFromYear y" "DayFromYear (y + 1) \<le> DayFromYear 10000"
    using fs(1,2) by (auto intro: DayFromYear_mono)
  then show "DayFromYear 0 \<le> Day t" "Day t < DayFromYear 10000"
    unfolding t Day_MakeDate MakeDay_month[OF v(1,2)]
    using day_in_year[OF v] DayFromYear_step[of y] by linarith+
qed

lemma getDatesInRange_valid:
  assumes "date_only start = Some a" "date_only end' = Some b"
  shows "set (getDatesInRange engine start end')
    = {x. date_only x \<noteq> None \<and> start \<le> x \<and> x < end'}"
proof (intro set_eqI iffI)
  fix x
  assume "x \<in> {x. date_only x \<noteq> None \<and> start \<le> x \<and> x < end'}"
  then obtain t where t: "date_only x = Some t" and o: "start \<le> x" "x < end'" by auto
  show "x \<in> set (getDatesInRange engine start end')"
    using assms t date_only_le[OF assms(1) t o(1)] date_only_less[OF t assms(2) o(2)]
    by (rule getDatesInRange_mem)
next
  fix x
  assume "x \<in> set (getDatesInRange engine start end')"
  then have "x \<in> set (dates_loop (Some a) (Some b) [])"
    by (simp add: getDatesInRange_def new_Date_date_only assms)
  then obtain k where k: "a + int k * msPerDay < b"
      and x: "x = split_T_0 (toISOString (a + int k * msPerDay))"
    using dates_loop_elems[of x "Some a" "Some b" "[]"] by auto
  define t where "t = a + int k * msPerDay"
  have pos: "0 < msPerDay" by (simp add: msPerDay_def)
  note ra = date_only_range[OF assms(1)] and rb = date_only_range[OF assms(2)]
  have a: "a = Day a * msPerDay" using Day_time_split[of a] ra(1) by simp
  have t': "t = (Day a + int k) * msPerDay" unfolding t_def by (subst a) (simp add: algebra_simps)
  have dt: "Day t = Day a + int k" and wt: "TimeWithinDay t = 0"
    unfolding t' Day_def TimeWithinDay_def using pos by simp_all
  have "Day t \<le> Day b" using k pos unfolding t_def[symmetric] Day_def
    by (intro zdiv_mono1) simp_all
  then have tx: "date_only x = Some t"
    unfolding x t_def[symmetric] using wt ra(2) rb(3) dt by (intro iso_date_only) simp_all
  have "a \<le> t" unfolding t_def using pos by simp
  have "start \<le> x"
  proof (rule ccontr)
    assume "\<not> start \<le> x"
    then have "x < start" by simp
    then show False using date_only_less[OF tx assms(1)] \<open>a \<le> t\<close> by simp
  qed
  moreover have "x < end'"
  proof (rule ccontr)
    assume "\<not> x < end'"
    then have "end' \<le> x" by simp
    then show False using date_only_le[OF assms(2) tx] k by (simp add: t_def)
  qed
  ultimately show "x \<in> {x. date_only x \<noteq> None \<and> start \<le> x \<and> x < end'}" using tx by simp
qed

section \<open>Availability\<close>

lemma set_sort_by_order: "set (sort_by_order rs) = set rs"
  by (simp add: sort_by_order_def)

lemma getAvailableRooms_set:
  "set (getAvailableRooms engine s ci co) =
    {room \<in> set (rooms s). isAvailable (snd room) \<and>
      \<not> (\<exists>res \<in> set (reservations s).
            (status (snd res) = Pending \<or> status (snd res) = Confirmed) \<and>
            reservation.checkIn (snd res) < co \<and> ci < reservation.checkOut (snd res) \<and>
            reservation.roomId (snd res) = fst room) \<and>
      \<not> (\<exists>blocked \<in> set (blockedDates s).
            date (snd blocked) \<in> set (getDatesInRange engine ci co) \<and>
            blockedDate.roomId (snd blocked) = fst room)}"
  by (auto simp: getAvailableRooms_def Let_def set_sort_by_order isOverlapping_def image_iff;
      blast)

text \<open>
  Claim C1. A reservation \<open>res\<close> of the store that is pending or confirmed and whose
  range overlaps the query range under the half-open rule (\<open>res.checkIn < checkOut\<close> and
  \<open>res.checkOut > checkIn\<close>, as strings) keeps its room out of the result: no room of
  \<open>getAvailableRooms checkIn checkOut\<close> has the id \<open>res.roomId\<close>. This holds for every
  store, every pair of strings and every engine.
\<close>

theorem active_overlap_excludes_room:
  assumes "(i, res) \<in> set (reservations s)"
    and "status res = Pending \<or> status res = Confirmed"
    and "reservation.checkIn res < checkOut'" and "reservation.checkOut res > checkIn'"
  shows "reservation.roomId res \<notin> set (map fst (getAvailableRooms engine s checkIn' checkOut'))"
  using assms by (force simp: getAvailableRooms_set)

theorem active_overlap_excludes_room_witness:
  "(10, booking) \<in> set (reservations example_db) \<and> status booking = Confirmed
   \<and> reservation.checkIn booking < ''2026-02-13'' \<and> reservation.checkOut booking > ''2026-02-11''
   \<and> reservation.roomId booking = 1
   \<and> 1 \<notin> set (map fst (getAvailableRooms no_fallback example_db ''2026-02-11'' ''2026-02-13''))"
proof -
  have a: "(10, booking) \<in> set (reservations example_db)" by (simp add: example_db_def)
  have b: "status booking = Confirmed" by (simp add: booking_def)
  have c: "reservation.checkIn booking < ''2026-02-13''" by (simp add: booking_def)
  have d: "reservation.checkOut booking > ''2026-02-11''" by (simp add: booking_def)
  have e: "reservation.roomId booking = 1" by (simp add: booking_def)
  have "reservation.roomId booking
      \<notin> set (map fst (getAvailableRooms no_fallback example_db ''2026-02-11'' ''2026-02-13''))"
    using a b c d by (intro active_overlap_excludes_room) simp_all
  then show ?thesis using a b c d e by simp
qed

lemma getDatesInRange_same: "getDatesInRange engine d d = []"
  unfolding getDatesInRange_def Let_def
  by (subst dates_loop.simps) (simp split: option.splits)

lemma getAvailableRooms_filter:
  "getAvailableRooms engine s ci co =
    sort_by_order (filter (\<lambda>room. isAvailable (snd room) \<and>
      \<not> (\<exists>res \<in> set (reservations s).
            (status (snd res) = Pending \<or> status (snd res) = Confirmed) \<and>
            reservation.checkIn (snd res) < co \<and> ci < reservation.checkOut (snd res) \<and>
            reservation.roomId (snd res) = fst room) \<and>
      \<not> (\<exists>blocked \<in> set (blockedDates s).
            date (snd blocked) \<in> set (getDatesInRange engine ci co) \<and>
            blockedDate.roomId (snd blocked) = fst room)) (rooms s))"
proof -
  have "filter (\<lambda>room. fst room \<notin> set (map (\<lambda>res. reservation.roomId (snd res))
              (filter (\<lambda>res. (status (snd res) = Pending \<or> status (snd res) = Confirmed) \<and>
                   isOverlapping (reservation.checkIn (snd res)) (reservation.checkOut (snd res))
                     ci co) (reservations s)))
            \<and> fst room \<notin> set (map (\<lambda>blocked. blockedDate.roomId (snd blocked))
              (filter (\<lambda>blocked. date (snd blocked) \<in> set (getDatesInRange engine ci co))
                 (blockedDates s))))
          (filter (\<lambda>r. isAvailable (snd r) = True) (rooms s))
      = filter (\<lambda>room. isAvailable (snd room) \<and>
      \<not> (\<exists>res \<in> set (reservations s).
            (status (snd res) = Pending \<or> status (snd res) = Confirmed) \<and>
            reservation.checkIn (snd res) < co \<and> ci < reservation.checkOut (snd res) \<and>
            reservation.roomId (snd res) = fst room) \<and>
      \<not> (\<exists>blocked \<in> set (blockedDates s).
            date (snd blocked) \<in> set (getDatesInRange engine ci co) \<and>
            blockedDate.roomId (snd blocked) = fst room)) (rooms s)"
    unfolding filter_filter
    by (rule filter_cong[OF refl]) (force simp: isOverlapping_def image_iff)
  then show ?thesis by (simp add: getAvailableRooms_def Let_def)
qed

text \<open>
  The example of the specification: with room A booked from 2026-02-10 to 2026-02-12, the
  query for 2026-02-11 to 2026-02-13 returns room B alone, and the query for 2026-02-12
  to 2026-02-14, which starts on the day the reservation ends, returns A and B.
\<close>

lemma availability_example:
  "getAvailableRooms no_fallback example_db ''2026-02-11'' ''2026-02-13'' = [(2, room_B)]"
  "getAvailableRooms no_fallback example_db ''2026-02-12'' ''2026-02-14'' = [(1, room_A), (2, room_B)]"
proof -
  have d1: "getDatesInRange no_fallback ''2026-02-11'' ''2026-02-13'' = [''2026-02-11'', ''2026-02-12'']"
    by code_simp
  have d2: "getDatesInRange no_fallback ''2026-02-12'' ''2026-02-14'' = [''2026-02-12'', ''2026-02-13'']"
    by code_simp
  show "getAvailableRooms no_fallback example_db ''2026-02-11'' ''2026-02-13'' = [(2, room_B)]"
    by (simp add: getAvailableRooms_filter d1 sort_by_order_def example_db_def
        room_A_def room_B_def booking_def)
  show "getAvailableRooms no_fallback example_db ''2026-02-12'' ''2026-02-14''
      = [(1, room_A), (2, room_B)]"
    by (simp add: getAvailableRooms_filter d2 sort_by_order_def example_db_def
        room_A_def room_B_def booking_def)
qed

text \<open>
  Claim C2 fails as stated: a zero-night range \<open>(d, d)\<close> does overlap a reservation that
  starts before \<open>d\<close> and ends after it, since \<open>res.checkIn < d\<close> and \<open>res.checkOut > d\<close>
  both hold. In the example store room A is booked from 2026-02-10 to 2026-02-12, and the
  query for \<open>(2026-02-11, 2026-02-11)\<close> leaves the bookable room A out.
\<close>

theorem zero_night_query_counterexample:
  "isAvailable room_A \<and> (1, room_A) \<in> set (rooms example_db)
   \<and> (1, room_A) \<in> set (list example_db)
   \<and> (1, room_A) \<notin> set (getAvailableRooms no_fallback example_db ''2026-02-11'' ''2026-02-11'')
   \<and> getAvailableRooms no_fallback example_db ''2026-02-11'' ''2026-02-11'' \<noteq> list example_db"
proof -
  have a: "isAvailable room_A" by (simp add: room_A_def)
  have b: "(1, room_A) \<in> set (rooms example_db)" by (simp add: example_db_def)
  have c: "(1, room_A) \<in> set (list example_db)"
    using a b by (simp add: list_def set_sort_by_order)
  have d: "(1, room_A)
      \<notin> set (getAvailableRooms no_fallback example_db ''2026-02-11'' ''2026-02-11'')"
    by (simp add: getAvailableRooms_set example_db_def booking_def)
  from c d have "getAvailableRooms no_fallback example_db ''2026-02-11'' ''2026-02-11''
      \<noteq> list example_db" by auto
  with a b c d show ?thesis by simp
qed

text \<open>
  Claim C2, amended. For every store, engine and string \<open>d\<close>, the enumeration of
  \<open>[d, d)\<close> is empty, so no blocked date excludes a room, and \<open>getAvailableRooms d d\<close>
  returns, sorted by order, the bookable rooms except those that a pending or confirmed
  reservation with \<open>checkIn < d < checkOut\<close> references. When no pending or confirmed
  reservation spans \<open>d\<close> in this way, the result is the guest view \<open>list\<close>: all bookable
  rooms.
\<close>

theorem zero_night_query:
  "getDatesInRange engine d d = []
   \<and> getAvailableRooms engine s d d =
       sort_by_order (filter (\<lambda>room. isAvailable (snd room) \<and>
         \<not> (\<exists>res \<in> set (reservations s).
               (status (snd res) = Pending \<or> status (snd res) = Confirmed) \<and>
               reservation.checkIn (snd res) < d \<and> d < reservation.checkOut (snd res) \<and>
               reservation.roomId (snd res) = fst room)) (rooms s))
   \<and> ((\<forall>res \<in> set (reservations s).
          (status (snd res) = Pending \<or> status (snd res) = Confirmed) \<longrightarrow>
          \<not> (reservation.checkIn (snd res) < d \<and> d < reservation.checkOut (snd res)))
        \<longrightarrow> getAvailableRooms engine s d d = list s)"
proof -
  have eq: "getAvailableRooms engine s d d =
       sort_by_order (filter (\<lambda>room. isAvailable (snd room) \<and>
         \<not> (\<exists>res \<in> set (reservations s).
               (status (snd res) = Pending \<or> status (snd res) = Confirmed) \<and>
               reservation.checkIn (snd res) < d \<and> d < reservation.checkOut (snd res) \<and>
               reservation.roomId (snd res) = fst room)) (rooms s))"
    by (simp add: getAvailableRooms_filter getDatesInRange_same)
  have "getAvailableRooms engine s d d = list s"
    if "\<forall>res \<in> set (reservations s).
          (status (snd res) = Pending \<or> status (snd res) = Confirmed) \<longrightarrow>
          \<not> (reservation.checkIn (snd res) < d \<and> d < reservation.checkOut (snd res))"
    unfolding eq list_def
    by (rule arg_cong[where f = sort_by_order], rule filter_cong[OF refl]) (use that in force)
  then show ?thesis using eq getDatesInRange_same by blast
qed

theorem zero_night_query_witness:
  "map (\<lambda>res. (status (snd res), reservation.checkIn (snd res), reservation.checkOut (snd res)))
       (reservations example_db) = [(Confirmed, ''2026-02-10'', ''2026-02-12'')]
   \<and> \<not> (''2026-02-10'' < ''2026-02-12'' \<and> ''2026-02-12'' < ''2026-02-12'')
   \<and> getDatesInRange no_fallback ''2026-02-12'' ''2026-02-12'' = []
   \<and> getAvailableRooms no_fallback example_db ''2026-02-12'' ''2026-02-12'' = list example_db
   \<and> map fst (list example_db) = [1, 2]"
proof -
  have r: "map (\<lambda>res. (status (snd res), reservation.checkIn (snd res),
        reservation.checkOut (snd res))) (reservations example_db)
      = [(Confirmed, ''2026-02-10'', ''2026-02-12'')]"
    by (simp add: example_db_def booking_def)
  have n: "\<not> (''2026-02-10'' < ''2026-02-12'' \<and> ''2026-02-12'' < ''2026-02-12'')" by simp
  have h: "\<forall>res \<in> set (reservations example_db).
      (status (snd res) = Pending \<or> status (snd res) = Confirmed) \<longrightarrow>
      \<not> (reservation.checkIn (snd res) < ''2026-02-12''
         \<and> ''2026-02-12'' < reservation.checkOut (snd res))"
    by (simp add: example_db_def booking_def)
  note z = zero_night_query[of no_fallback "''2026-02-12''" example_db]
  have e: "getDatesInRange no_fallback ''2026-02-12'' ''2026-02-12'' = []" using z by blast
  have g: "getAvailableRooms no_fallback example_db ''2026-02-12'' ''2026-02-12''
      = list example_db"
    using z h by blast
  have l: "map fst (list example_db) = [1, 2]"
    by (simp add: list_def sort_by_order_def example_db_def room_A_def room_B_def)
  show ?thesis using r n e g l by blast
qed

lemma getDatesInRange_calendar:
  assumes "valid_date checkIn'" "valid_date checkOut'"
  shows "x \<in> set (getDatesInRange engine checkIn' checkOut')
    \<longleftrightarrow> valid_date x \<and> checkIn' \<le> x \<and> x < checkOut'"
proof -
  obtain a b where "date_only checkIn' = Some a" "date_only checkOut' = Some b"
    using assms by (auto simp: valid_date_def)
  then show ?thesis by (simp add: getDatesInRange_valid valid_date_def)
qed

text \<open>
  Claim C3. A blocked-date entry whose date is one of the enumerated nights keeps its
  room out of the result, whatever reservations the store holds. The enumerated nights
  are the calendar days of the requested half-open range: for calendar dates in the
  schema's \<open>YYYY-MM-DD\<close> form, an entry with \<open>checkIn \<le> date < checkOut\<close> (the order of
  the strings, which for such strings is the order of the days) keeps its room out. The
  proof follows the loop of \<open>getDatesInRange\<close> one day at a time from \<open>checkIn\<close> up to
  the entry's date, and uses that \<open>toISOString\<close> prints a parsed date back as written.
\<close>

theorem blocked_date_excludes_room:
  assumes "(i, blocked) \<in> set (blockedDates s)"
  shows "(date blocked \<in> set (getDatesInRange engine checkIn' checkOut') \<longrightarrow>
            blockedDate.roomId blocked
              \<notin> set (map fst (getAvailableRooms engine s checkIn' checkOut')))
    \<and> (valid_date checkIn' \<and> valid_date checkOut' \<and> valid_date (date blocked)
         \<and> checkIn' \<le> date blocked \<and> date blocked < checkOut' \<longrightarrow>
            blockedDate.roomId blocked
              \<notin> set (map fst (getAvailableRooms engine s checkIn' checkOut')))"
proof -
  have a: "blockedDate.roomId blocked
        \<notin> set (map fst (getAvailableRooms engine s checkIn' checkOut'))"
    if "date blocked \<in> set (getDatesInRange engine checkIn' checkOut')"
    using that assms by (force simp: getAvailableRooms_set)
  have "date blocked \<in> set (getDatesInRange engine checkIn' checkOut')"
    if "valid_date checkIn'" "valid_date checkOut'" "valid_date (date blocked)"
      "checkIn' \<le> date blocked" "date blocked < checkOut'"
    using that by (simp add: getDatesInRange_calendar)
  then show ?thesis using a by blast
qed

theorem blocked_date_excludes_room_witness:
  "(20, \<lparr>blockedDate.roomId = 2, date = ''2026-03-01'', reason = None\<rparr>)
      \<in> set (blockedDates example_db)
   \<and> valid_date ''2026-02-27'' \<and> valid_date ''2026-03-02'' \<and> valid_date ''2026-03-01''
   \<and> ''2026-02-27'' \<le> ''2026-03-01'' \<and> ''2026-03-01'' < ''2026-03-02''
   \<and> getDatesInRange no_fallback ''2026-02-27'' ''2026-03-02''
       = [''2026-02-27'', ''2026-02-28'', ''2026-03-01'']
   \<and> 2 \<notin> set (map fst (getAvailableRooms no_fallback example_db ''2026-02-27'' ''2026-03-02''))"
proof -
  let ?b = "\<lparr>blockedDate.roomId = 2, date = ''2026-03-01'', reason = None\<rparr>"
  have a: "(20, ?b) \<in> set (blockedDates example_db)" by (simp add: example_db_def)
  have v: "valid_date ''2026-02-27''" "valid_date ''2026-03-02''" "valid_date ''2026-03-01''"
    unfolding valid_date_def by code_simp+
  have o: "''2026-02-27'' \<le> ''2026-03-01''" "''2026-03-01'' < ''2026-03-02''" by simp_all
  have e: "getDatesInRange no_fallback ''2026-02-27'' ''2026-03-02''
      = [''2026-02-27'', ''2026-02-28'', ''2026-03-01'']"
    by code_simp
  have "blockedDate.roomId ?b
      \<notin> set (map fst (getAvailableRooms no_fallback example_db ''2026-02-27'' ''2026-03-02''))"
    using blocked_date_excludes_room[OF a, of no_fallback "''2026-02-27''" "''2026-03-02''"] v o
    by simp
  then show ?thesis using a v o e by simp
qed

text \<open>
  Claim C4. A bookable room all of whose reservations are cancelled or completed, and
  none of whose blocked dates is among the enumerated nights of the requested range, is
  in the result, whatever the date ranges of those reservations are; this holds for
  every pair of strings and every engine. For calendar dates \<open>checkIn\<close> and \<open>checkOut\<close> in
  the schema's form the enumerated nights are the days of the half-open range, so it is
  enough that no blocked date of the room has \<open>checkIn \<le> date < checkOut\<close>.
\<close>

theorem inactive_reservations_never_exclude:
  assumes "(i, room) \<in> set (rooms s)" and "isAvailable room"
    and "\<forall>res \<in> set (reservations s). reservation.roomId (snd res) = i \<longrightarrow>
           status (snd res) = Cancelled \<or> status (snd res) = Completed"
  shows "((\<forall>blocked \<in> set (blockedDates s). blockedDate.roomId (snd blocked) = i \<longrightarrow>
             date (snd blocked) \<notin> set (getDatesInRange engine checkIn' checkOut'))
          \<longrightarrow> (i, room) \<in> set (getAvailableRooms engine s checkIn' checkOut'))
    \<and> (valid_date checkIn' \<and> valid_date checkOut'
         \<and> (\<forall>blocked \<in> set (blockedDates s). blockedDate.roomId (snd blocked) = i \<longrightarrow>
               \<not> (checkIn' \<le> date (snd blocked) \<and> date (snd blocked) < checkOut'))
          \<longrightarrow> (i, room) \<in> set (getAvailableRooms engine s checkIn' checkOut'))"
proof -
  have a: "(i, room) \<in> set (getAvailableRooms engine s checkIn' checkOut')"
    if "\<forall>blocked \<in> set (blockedDates s). blockedDate.roomId (snd blocked) = i \<longrightarrow>
          date (snd blocked) \<notin> set (getDatesInRange engine checkIn' checkOut')"
    using that assms by (auto simp: getAvailableRooms_set)
  have "\<forall>blocked \<in> set (blockedDates s). blockedDate.roomId (snd blocked) = i \<longrightarrow>
          date (snd blocked) \<notin> set (getDatesInRange engine checkIn' checkOut')"
    if "valid_date checkIn'" "valid_date checkOut'"
      "\<forall>blocked \<in> set (blockedDates s). blockedDate.roomId (snd blocked) = i \<longrightarrow>
         \<not> (checkIn' \<le> date (snd blocked) \<and> date (snd blocked) < checkOut')"
    using that by (simp add: getDatesInRange_calendar)
  then show ?thesis using a by blast
qed

theorem inactive_reservations_never_exclude_witness:
  "rooms example_db2 = [(1, room_A)] \<and> isAvailable room_A
   \<and> map (\<lambda>res. (reservation.roomId (snd res), status (snd res),
            reservation.checkIn (snd res), reservation.checkOut (snd res)))
        (reservations example_db2)
      = [(1, Cancelled, ''2026-02-10'', ''2026-02-12''),
         (1, Completed, ''2026-02-01'', ''2026-02-28'')]
   \<and> map (\<lambda>blocked. (blockedDate.roomId (snd blocked), date (snd blocked)))
        (blockedDates example_db2) = [(1, ''2026-02-20'')]
   \<and> valid_date ''2026-02-11'' \<and> valid_date ''2026-02-13''
   \<and> \<not> (''2026-02-11'' \<le> ''2026-02-20'' \<and> ''2026-02-20'' < ''2026-02-13'')
   \<and> getDatesInRange no_fallback ''2026-02-11'' ''2026-02-13'' = [''2026-02-11'', ''2026-02-12'']
   \<and> (1, room_A) \<in> set (getAvailableRooms no_fallback example_db2 ''2026-02-11'' ''2026-02-13'')"
proof -
  have a: "rooms example_db2 = [(1, room_A)]" by (simp add: example_db2_def)
  have b: "isAvailable room_A" by (simp add: room_A_def)
  have c: "map (\<lambda>res. (reservation.roomId (snd res), status (snd res),
            reservation.checkIn (snd res), reservation.checkOut (snd res)))
        (reservations example_db2)
      = [(1, Cancelled, ''2026-02-10'', ''2026-02-12''),
         (1, Completed, ''2026-02-01'', ''2026-02-28'')]"
    by (simp add: example_db2_def booking_def)
  have d: "map (\<lambda>blocked. (blockedDate.roomId (snd blocked), date (snd blocked)))
        (blockedDates example_db2) = [(1, ''2026-02-20'')]"
    by (simp add: example_db2_def)
  have v: "valid_date ''2026-02-11''" "valid_date ''2026-02-13''"
    unfolding valid_date_def by code_simp+
  have o: "\<not> (''2026-02-11'' \<le> ''2026-02-20'' \<and> ''2026-02-20'' < ''2026-02-13'')" by simp
  have e: "getDatesInRange no_fallback ''2026-02-11'' ''2026-02-13''
      = [''2026-02-11'', ''2026-02-12'']"
    by code_simp
  have h1: "(1, room_A) \<in> set (rooms example_db2)" by (simp add: a)
  have h2: "\<forall>res \<in> set (reservations example_db2). reservation.roomId (snd res) = 1 \<longrightarrow>
           status (snd res) = Cancelled \<or> status (snd res) = Completed"
    by (simp add: example_db2_def booking_def)
  have h3: "\<forall>blocked \<in> set (blockedDates example_db2).
      blockedDate.roomId (snd blocked) = 1 \<longrightarrow>
      \<not> (''2026-02-11'' \<le> date (snd blocked) \<and> date (snd blocked) < ''2026-02-13'')"
    by (simp add: example_db2_def)
  have "(1, room_A) \<in> set (getAvailableRooms no_fallback example_db2 ''2026-02-11'' ''2026-02-13'')"
    using inactive_reservations_never_exclude[OF h1 b h2, of no_fallback
        "''2026-02-11''" "''2026-02-13''"] v h3
    by blast
  then show ?thesis using a b c d v o e by blast
qed

section \<open>Guest cancellation\<close>

lemma db_get_patch:
  "db_get t i = Some d \<Longrightarrow>
     db_patch t i f = Inr (map (\<lambda>(j, d). if j = i then (j, f d) else (j, d)) t)"
  by (simp add: db_patch_def)

lemma db_get_after_patch:
  "db_get (map (\<lambda>(j, d). if j = i then (j, f d) else (j, d)) t) k
     = (if k = i then map_option f (db_get t i) else db_get t k)"
  unfolding db_get_def
  by (induction t) (auto split: if_splits)

text \<open>
  Claim C5. \<open>cancel\<close> throws not-found when the id has no reservation; otherwise
  unauthorized when the email differs from the stored \<open>guestEmail\<close>; otherwise
  invalid-state when the status is not pending; otherwise it returns the id and the
  reservation is stored with status cancelled (and \<open>updatedAt\<close> set to the time of the
  call). It throws in no other case: a throw means one of the three conditions.
\<close>

theorem cancel_outcomes:
  "(db_get (reservations s) i = None \<longrightarrow> fst (cancel now s i email) = Inl NotFound)
   \<and> (\<forall>r. db_get (reservations s) i = Some r \<and> guestEmail r \<noteq> email \<longrightarrow>
          fst (cancel now s i email) = Inl Unauthorized)
   \<and> (\<forall>r. db_get (reservations s) i = Some r \<and> guestEmail r = email \<and> status r \<noteq> Pending \<longrightarrow>
          fst (cancel now s i email) = Inl InvalidState)
   \<and> (\<forall>r. db_get (reservations s) i = Some r \<and> guestEmail r = email \<and> status r = Pending \<longrightarrow>
          fst (cancel now s i email) = Inr i
          \<and> db_get (reservations (snd (cancel now s i email))) i
              = Some (r\<lparr>status := Cancelled, updatedAt := now\<rparr>))
   \<and> ((\<exists>e. fst (cancel now s i email) = Inl e) \<longleftrightarrow>
        (db_get (reservations s) i = None
         \<or> (\<exists>r. db_get (reservations s) i = Some r \<and> (guestEmail r \<noteq> email \<or> status r \<noteq> Pending))))"
  by (cases "db_get (reservations s) i")
     (auto simp: cancel_def db_get_patch db_get_after_patch)

theorem cancel_outcomes_witness:
  "db_get (reservations ledger_db) 99 = None
   \<and> fst (cancel 5000 ledger_db 99 ''lan@example.com'') = Inl NotFound
   \<and> db_get (reservations ledger_db) 11 = Some pending_booking
   \<and> guestEmail pending_booking = ''lan@example.com'' \<and> status pending_booking = Pending
   \<and> fst (cancel 5000 ledger_db 11 ''mai@example.com'') = Inl Unauthorized
   \<and> fst (cancel 5000 ledger_db 11 ''lan@example.com'') = Inr 11
   \<and> db_get (reservations (snd (cancel 5000 ledger_db 11 ''lan@example.com''))) 11
       = Some (pending_booking\<lparr>status := Cancelled, updatedAt := 5000\<rparr>)
   \<and> db_get (reservations ledger_db) 10 = Some booking
   \<and> guestEmail booking = ''lan@example.com'' \<and> status booking = Confirmed
   \<and> fst (cancel 5000 ledger_db 10 ''lan@example.com'') = Inl InvalidState"
proof -
  have g0: "db_get (reservations ledger_db) 99 = None"
    and g1: "db_get (reservations ledger_db) 11 = Some pending_booking"
    and g2: "db_get (reservations ledger_db) 10 = Some booking"
    by (simp_all add: ledger_db_def db_get_def)
  have p: "guestEmail pending_booking = ''lan@example.com''" "status pending_booking = Pending"
    "guestEmail pending_booking \<noteq> ''mai@example.com''"
    by (simp_all add: pending_booking_def booking_def)
  have b: "guestEmail booking = ''lan@example.com''" "status booking = Confirmed"
    "status booking \<noteq> Pending"
    by (simp_all add: booking_def)
  have "fst (cancel 5000 ledger_db 99 ''lan@example.com'') = Inl NotFound"
    using cancel_outcomes[of ledger_db 99 5000 "''lan@example.com''"] g0 by blast
  moreover have "fst (cancel 5000 ledger_db 11 ''mai@example.com'') = Inl Unauthorized"
    using cancel_outcomes[of ledger_db 11 5000 "''mai@example.com''"] g1 p by blast
  moreover have "fst (cancel 5000 ledger_db 11 ''lan@example.com'') = Inr 11
      \<and> db_get (reservations (snd (cancel 5000 ledger_db 11 ''lan@example.com''))) 11
       = Some (pending_booking\<lparr>status := Cancelled, updatedAt := 5000\<rparr>)"
    using cancel_outcomes[of ledger_db 11 5000 "''lan@example.com''"] g1 p by blast
  moreover have "fst (cancel 5000 ledger_db 10 ''lan@example.com'') = Inl InvalidState"
    using cancel_outcomes[of ledger_db 10 5000 "''lan@example.com''"] g2 b by blast
  ultimately show ?thesis using g0 g1 g2 p b by blast
qed

text \<open>
  Claim C9. A \<open>cancel\<close> that throws has written nothing: the store the handler leaves
  is the store it was given, so every reservation, the targeted one with its status and
  \<open>updatedAt\<close> included, is as it was.
\<close>

theorem cancel_failure_writes_nothing:
  assumes "fst (cancel now s i email) = Inl e"
  shows "snd (cancel now s i email) = s"
  using assms
  by (auto simp: cancel_def split: option.splits if_splits sum.splits)

theorem cancel_failure_writes_nothing_witness:
  "fst (cancel 5000 ledger_db 10 ''lan@example.com'') = Inl InvalidState
   \<and> snd (cancel 5000 ledger_db 10 ''lan@example.com'') = ledger_db
   \<and> db_get (reservations (snd (cancel 5000 ledger_db 10 ''lan@example.com''))) 10 = Some booking"
proof -
  have f: "fst (cancel 5000 ledger_db 10 ''lan@example.com'') = Inl InvalidState"
    by (simp add: cancel_def ledger_db_def db_get_def booking_def)
  have u: "snd (cancel 5000 ledger_db 10 ''lan@example.com'') = ledger_db"
    using f by (rule cancel_failure_writes_nothing)
  have "db_get (reservations ledger_db) 10 = Some booking"
    by (simp add: ledger_db_def db_get_def)
  then show ?thesis using f u by simp
qed

section \<open>Administrative status update\<close>

lemma updateStatus_found:
  assumes "db_get (reservations s) i = Some r"
  shows "updateStatus now s i st =
    (Inr i, s\<lparr>reservations := map (\<lambda>(j, d). if j = i
        then (j, d\<lparr>status := st, updatedAt := now\<rparr>) else (j, d)) (reservations s)\<rparr>)"
  using assms by (simp add: updateStatus_def db_get_patch)

text \<open>
  Claim C7. For an id that has a reservation \<open>r\<close>, whatever its status, and any target
  status \<open>st\<close>, \<open>updateStatus\<close> returns the id and stores
  \<open>r\<lparr>status := st, updatedAt := now\<rparr>\<close>: the reservation with these two fields set and
  every other field (\<open>roomId\<close>, the guest fields, \<open>checkIn\<close>, \<open>checkOut\<close>, \<open>adults\<close>,
  \<open>children\<close>, \<open>totalPrice\<close>, \<open>specialRequests\<close>, \<open>createdAt\<close>) as in \<open>r\<close>. Every other
  reservation and the other tables are untouched. A second call with the same status, at
  time \<open>now'\<close>, stores the same status and the new time.
\<close>

theorem updateStatus_sets_status_and_time:
  assumes "db_get (reservations s) i = Some r"
  shows "fst (updateStatus now s i st) = Inr i
    \<and> db_get (reservations (snd (updateStatus now s i st))) i
        = Some (r\<lparr>status := st, updatedAt := now\<rparr>)
    \<and> (\<forall>j. j \<noteq> i \<longrightarrow> db_get (reservations (snd (updateStatus now s i st))) j
                        = db_get (reservations s) j)
    \<and> rooms (snd (updateStatus now s i st)) = rooms s
    \<and> blockedDates (snd (updateStatus now s i st)) = blockedDates s
    \<and> fst (updateStatus now' (snd (updateStatus now s i st)) i st) = Inr i
    \<and> db_get (reservations (snd (updateStatus now' (snd (updateStatus now s i st)) i st))) i
        = Some (r\<lparr>status := st, updatedAt := now'\<rparr>)"
proof -
  define s1 where "s1 = snd (updateStatus now s i st)"
  have e1: "updateStatus now s i st = (Inr i, s1)"
    and s1: "s1 = s\<lparr>reservations := map (\<lambda>(j, d). if j = i
        then (j, d\<lparr>status := st, updatedAt := now\<rparr>) else (j, d)) (reservations s)\<rparr>"
    unfolding s1_def by (simp_all add: updateStatus_found[OF assms])
  have g1: "db_get (reservations s1) i = Some (r\<lparr>status := st, updatedAt := now\<rparr>)"
    unfolding s1 using assms by (simp add: db_get_after_patch)
  have other: "\<forall>j. j \<noteq> i \<longrightarrow> db_get (reservations s1) j = db_get (reservations s) j"
    unfolding s1 by (simp add: db_get_after_patch)
  have frame: "rooms s1 = rooms s" "blockedDates s1 = blockedDates s"
    unfolding s1 by simp_all
  define s2 where "s2 = snd (updateStatus now' s1 i st)"
  have e2: "updateStatus now' s1 i st = (Inr i, s2)"
    and s2: "s2 = s1\<lparr>reservations := map (\<lambda>(j, d). if j = i
        then (j, d\<lparr>status := st, updatedAt := now'\<rparr>) else (j, d)) (reservations s1)\<rparr>"
    unfolding s2_def by (simp_all add: updateStatus_found[OF g1])
  have g2: "db_get (reservations s2) i = Some (r\<lparr>status := st, updatedAt := now'\<rparr>)"
    unfolding s2 using g1 by (simp add: db_get_after_patch)
  have "fst (updateStatus now s i st) = Inr i" "snd (updateStatus now s i st) = s1"
    "fst (updateStatus now' s1 i st) = Inr i" "snd (updateStatus now' s1 i st) = s2"
    by (simp_all add: e1 e2)
  then show ?thesis using g1 other frame g2 by (simp only:)
qed

lemma status_update_fields:
  "status (r\<lparr>status := st, updatedAt := now\<rparr>) = st"
  "updatedAt (r\<lparr>status := st, updatedAt := now\<rparr>) = now"
  "reservation.roomId (r\<lparr>status := st, updatedAt := now\<rparr>) = reservation.roomId r"
  "guestName (r\<lparr>status := st, updatedAt := now\<rparr>) = guestName r"
  "guestEmail (r\<lparr>status := st, updatedAt := now\<rparr>) = guestEmail r"
  "guestPhone (r\<lparr>status := st, updatedAt := now\<rparr>) = guestPhone r"
  "guestCountry (r\<lparr>status := st, updatedAt := now\<rparr>) = guestCountry r"
  "reservation.checkIn (r\<lparr>status := st, updatedAt := now\<rparr>) = reservation.checkIn r"
  "reservation.checkOut (r\<lparr>status := st, updatedAt := now\<rparr>) = reservation.checkOut r"
  "adults (r\<lparr>status := st, updatedAt := now\<rparr>) = adults r"
  "children (r\<lparr>status := st, updatedAt := now\<rparr>) = children r"
  "totalPrice (r\<lparr>status := st, updatedAt := now\<rparr>) = totalPrice r"
  "specialRequests (r\<lparr>status := st, updatedAt := now\<rparr>) = specialRequests r"
  "createdAt (r\<lparr>status := st, updatedAt := now\<rparr>) = createdAt r"
  by simp_all

theorem updateStatus_sets_status_and_time_witness:
  "db_get (reservations ledger_db) 10 = Some booking \<and> status booking = Confirmed
   \<and> fst (updateStatus 7000 ledger_db 10 Pending) = Inr 10
   \<and> db_get (reservations (snd (updateStatus 7000 ledger_db 10 Pending))) 10
       = Some (booking\<lparr>status := Pending, updatedAt := 7000\<rparr>)
   \<and> db_get (reservations (snd (updateStatus 8000
         (snd (updateStatus 7000 ledger_db 10 Pending)) 10 Pending))) 10
       = Some (booking\<lparr>status := Pending, updatedAt := 8000\<rparr>)"
proof -
  have g: "db_get (reservations ledger_db) 10 = Some booking"
    by (simp add: ledger_db_def db_get_def)
  have b: "status booking = Confirmed" by (simp add: booking_def)
  note u = updateStatus_sets_status_and_time[OF g, of 7000 Pending 8000]
  have "fst (updateStatus 7000 ledger_db 10 Pending) = Inr 10"
    using u by (elim conjE)
  moreover have "db_get (reservations (snd (updateStatus 7000 ledger_db 10 Pending))) 10
       = Some (booking\<lparr>status := Pending, updatedAt := 7000\<rparr>)"
    using u by (elim conjE)
  moreover have "db_get (reservations (snd (updateStatus 8000
         (snd (updateStatus 7000 ledger_db 10 Pending)) 10 Pending))) 10
       = Some (booking\<lparr>status := Pending, updatedAt := 8000\<rparr>)"
    using u by (elim conjE)
  ultimately show ?thesis using g b by (intro conjI)
qed

section \<open>Reservation statistics\<close>

subsection \<open>Binary64 addition\<close>

text \<open>
  Integers of magnitude up to \<open>2 ^ 53\<close> are binary64 values, and the sum of two of them
  is the number that their mathematical sum denotes: exact when it is again of magnitude
  up to \<open>2 ^ 53\<close>, rounded otherwise. Every result of \<open>round64\<close>, and so every sum, is a
  binary64 value.
\<close>

lemma bits_0: "bits 0 = 0"
  by (simp add: bits.simps)

lemma bits_double: "0 < n \<Longrightarrow> bits (2 * n) = Suc (bits n)"
  by (subst bits.simps) simp

lemma bits_mult_pow: "0 < n \<Longrightarrow> bits (n * 2 ^ j) = bits n + j"
proof (induction j)
  case 0
  show ?case by simp
next
  case (Suc j)
  have e: "n * 2 ^ Suc j = 2 * (n * 2 ^ j)" by simp
  show ?case unfolding e using Suc bits_double[of "n * 2 ^ j"] by simp
qed

lemma bits_le_iff: "bits n \<le> k \<longleftrightarrow> n < 2 ^ k"
proof (induction n arbitrary: k rule: bits.induct)
  case (1 n)
  show ?case
  proof (cases "n = 0")
    case True
    then show ?thesis by (simp add: bits_0)
  next
    case False
    then have b: "bits n = Suc (bits (n div 2))" by (subst bits.simps) simp
    show ?thesis
    proof (cases k)
      case 0
      then show ?thesis using False b by simp
    next
      case (Suc k')
      have "bits (n div 2) \<le> k' \<longleftrightarrow> n div 2 < 2 ^ k'" using False by (rule "1.IH")
      moreover have "n div 2 < 2 ^ k' \<longleftrightarrow> n < 2 * 2 ^ k'" by auto
      ultimately show ?thesis using b Suc by simp
    qed
  qed
qed

lemma scale_pos: "0 < scale"
  unfolding scale_def by (rule zero_less_power) simp

lemma bits_scaled: "0 < c \<Longrightarrow> bits (c * scale) = bits c + 1074"
  unfolding scale_def by (rule bits_mult_pow)

lemma pow_dvd_scale: "k \<le> 1074 \<Longrightarrow> 2 ^ k dvd c * scale"
  unfolding scale_def by (rule dvd_mult) (rule le_imp_power_dvd)

lemma round64_exact:
  assumes "c \<le> 2 ^ 53"
  shows "round64 s (c * scale) = Finite s (c * scale)"
proof (cases "bits (c * scale) \<le> 53")
  case True
  then show ?thesis by (simp add: round64_def)
next
  case False
  then have c0: "0 < c" by (cases "c = 0") (simp_all add: bits_0)
  define k where "k = bits (c * scale) - 53"
  have l: "bits (c * scale) = bits c + 1074" using c0 by (rule bits_scaled)
  have dvd: "2 ^ k dvd c * scale"
  proof (cases "bits c \<le> 53")
    case True
    then have "k \<le> 1074" by (simp add: k_def l)
    then show ?thesis by (rule pow_dvd_scale)
  next
    case False
    then have "\<not> c < 2 ^ 53" by (simp add: bits_le_iff)
    then have c: "c = 2 * 2 ^ 52" using assms by simp
    have "bits c \<le> 54" unfolding bits_le_iff c by simp
    then have "k - 1 \<le> 1074" by (simp add: k_def l)
    then have "2 ^ (k - 1) dvd 2 ^ 52 * scale" by (rule pow_dvd_scale)
    then have "2 * 2 ^ (k - 1) dvd 2 * (2 ^ 52 * scale)" by (rule mult_dvd_mono[OF dvd_refl])
    moreover have "0 < k" using False by (simp add: k_def l)
    then have "(2::nat) * 2 ^ (k - 1) = 2 ^ k" by (cases k) simp_all
    ultimately show ?thesis unfolding c by (simp only: mult.assoc)
  qed
  then have r: "c * scale mod 2 ^ k = 0" and q: "c * scale div 2 ^ k * 2 ^ k = c * scale"
    by simp_all
  have "c < 2 ^ 1024" using assms by simp
  then have "\<not> 2 ^ 1024 * scale \<le> c * scale" using scale_pos by simp
  then show ?thesis
    using False unfolding round64_def Let_def k_def[symmetric] by (simp add: r q)
qed

lemma signed_num:
  "signed (i < 0) (nat \<bar>i\<bar> * scale) = i * int scale"
  by (simp add: signed_def)

lemma num_of_int_exact:
  assumes "\<bar>i\<bar> \<le> 2 ^ 53"
  shows "num_of_int i = Finite (i < 0) (nat \<bar>i\<bar> * scale)"
proof (cases "i = 0")
  case True
  then show ?thesis by (simp add: num_of_int_def)
next
  case False
  have "nat \<bar>i\<bar> \<le> 2 ^ 53" using assms by (simp add: nat_le_iff)
  then show ?thesis using False by (simp only: num_of_int_def round64_exact if_False)
qed

lemma Number_add_ints:
  assumes "\<bar>a\<bar> \<le> 2 ^ 53" "\<bar>b\<bar> \<le> 2 ^ 53"
  shows "Number_add (num_of_int a) (num_of_int b) = num_of_int (a + b)"
proof -
  let ?S = "signed (a < 0) (nat \<bar>a\<bar> * scale) + signed (b < 0) (nat \<bar>b\<bar> * scale)"
  have S: "?S = (a + b) * int scale" by (simp only: signed_num distrib_right)
  have add: "Number_add (num_of_int a) (num_of_int b)
      = (if ?S = 0 then Finite (a < 0 \<and> b < 0) 0 else round64 (?S < 0) (nat \<bar>?S\<bar>))"
    unfolding num_of_int_exact[OF assms(1)] num_of_int_exact[OF assms(2)]
    by (simp only: Number_add.simps Let_def)
  show ?thesis
  proof (cases "a + b = 0")
    case True
    then have "\<not> (a < 0 \<and> b < 0)" by linarith
    then show ?thesis unfolding add S using True by (simp add: num_of_int_def)
  next
    case False
    have n: "nat \<bar>(a + b) * int scale\<bar> = nat \<bar>a + b\<bar> * scale"
      by (simp add: abs_mult nat_mult_distrib)
    have lt: "(a + b) * int scale < 0 \<longleftrightarrow> a + b < 0"
      using scale_pos by (simp add: mult_less_0_iff)
    have nz: "(a + b) * int scale \<noteq> 0" using False scale_pos by simp
    show ?thesis unfolding add S n lt using False nz by (simp only: num_of_int_def if_False)
  qed
qed

lemma to_int_num_of_int:
  assumes "\<bar>i\<bar> \<le> 2 ^ 53"
  shows "to_int (num_of_int i) = Some i"
  unfolding num_of_int_exact[OF assms] to_int_def
  using scale_pos by (simp add: signed_def)

lemma round64_tie:
  "round64 s (9007199254740993 * scale) = Finite s (9007199254740992 * scale)"
proof -
  let ?n = "9007199254740993 * scale"
  have "bits 9007199254740993 \<le> 54" "\<not> bits 9007199254740993 \<le> 53"
    unfolding bits_le_iff by simp_all
  then have "bits 9007199254740993 = 54" by simp
  then have l: "bits ?n = 1128" by (simp add: bits_scaled)
  have k: "(2::nat) ^ (1128 - 53) = 2 * scale" "(2::nat) ^ (1128 - 53 - 1) = scale"
    unfolding scale_def by simp_all
  have q: "?n div (2 * scale) = 4503599627370496" using scale_pos by simp
  have r: "?n mod (2 * scale) = scale"
  proof -
    have "?n mod (2 * scale) = (9007199254740993 mod 2) * scale" by (simp only: mult_mod_left)
    then show ?thesis by simp
  qed
  have m: "4503599627370496 * (2 * scale) = 9007199254740992 * scale" by simp
  have "\<not> 2 ^ 1024 * scale \<le> 9007199254740992 * scale" using scale_pos by simp
  then show ?thesis
    unfolding round64_def Let_def l k q r m by simp
qed

lemma num_of_int_rounds: "num_of_int 9007199254740993 = num_of_int 9007199254740992"
proof -
  have "num_of_int 9007199254740993 = Finite False (9007199254740992 * scale)"
    unfolding num_of_int_def using round64_tie[of False] by simp
  moreover have "num_of_int 9007199254740992 = Finite False (9007199254740992 * scale)"
    using num_of_int_exact[of 9007199254740992] by simp
  ultimately show ?thesis by simp
qed

lemma bits_eq: "2 ^ j \<le> n \<Longrightarrow> n < 2 ^ Suc j \<Longrightarrow> bits n = Suc j"
proof -
  assume a: "2 ^ j \<le> n" and b: "n < 2 ^ Suc j"
  have "bits n \<le> Suc j" using b by (simp only: bits_le_iff)
  moreover have "\<not> bits n \<le> j" using a by (simp add: bits_le_iff)
  ultimately show ?thesis by simp
qed

lemma bits_ge: "bits n > j \<Longrightarrow> 2 ^ j \<le> n"
  using bits_le_iff[of n j] by simp

lemma bits_lt: "n < 2 ^ bits n"
  using bits_le_iff[of n "bits n"] by simp

lemma round64_is_double: "is_double (round64 s n)"
proof (cases "bits n \<le> 53")
  case True
  then have "n < 2 ^ 53" by (simp add: bits_le_iff)
  moreover have "(2::nat) ^ 53 \<le> 2 ^ 1024 * scale"
  proof -
    have "(2::nat) ^ 53 \<le> 2 ^ 1024" by (rule power_increasing) simp_all
    also have "\<dots> \<le> 2 ^ 1024 * scale" using scale_pos by simp
    finally show ?thesis .
  qed
  ultimately have "n < 2 ^ 1024 * scale" by (rule less_le_trans)
  then show ?thesis using True by (simp add: round64_def is_double_def)
next
  case False
  define k where "k = bits n - 53"
  define q where "q = n div 2 ^ k"
  define r where "r = n mod 2 ^ k"
  define q' where "q' = (if r > 2 ^ (k - 1) \<or> (r = 2 ^ (k - 1) \<and> odd q) then q + 1 else q)"
  define m where "m = q' * 2 ^ k"
  have l: "bits n = k + 53" using False by (simp add: k_def)
  have k: "0 < k" using False by (simp add: k_def)
  have lo: "2 ^ (k + 52) \<le> n" using l by (intro bits_ge) simp
  have hi: "n < 2 ^ (k + 53)" using bits_lt[of n] by (simp only: l)
  have "q < 2 ^ 53"
    unfolding q_def using hi by (simp add: less_mult_imp_div_less power_add mult.commute)
  moreover have "2 ^ 52 \<le> q"
  proof -
    have "(2::nat) ^ 52 * 2 ^ k \<le> n" using lo by (simp add: power_add mult.commute)
    then have "(2::nat) ^ 52 * 2 ^ k div 2 ^ k \<le> n div 2 ^ k" by (rule div_le_mono)
    then show ?thesis by (simp add: q_def)
  qed
  ultimately have q': "2 ^ 52 \<le> q'" "q' \<le> 2 ^ 53" by (simp_all add: q'_def)
  have r: "round64 s n = (if m \<ge> 2 ^ 1024 * scale then Infinite s else Finite s m)"
    using False
    unfolding round64_def Let_def k_def[symmetric] q_def[symmetric] r_def[symmetric]
      q'_def[symmetric] m_def[symmetric]
    by simp
  have "bits m \<le> 53 \<or> 2 ^ (bits m - 53) dvd m"
  proof (cases "q' = 2 ^ 53")
    case True
    have "bits m = bits q' + k" unfolding m_def using True by (intro bits_mult_pow) simp
    moreover have "bits q' = Suc 53" unfolding True by (rule bits_eq) simp_all
    ultimately have "bits m - 53 = Suc k" by simp
    moreover have "(2::nat) ^ Suc k dvd m"
    proof -
      have "m = 2 ^ 52 * 2 ^ Suc k" unfolding m_def True by simp
      then show ?thesis by simp
    qed
    ultimately show ?thesis by simp
  next
    case False
    then have lt: "q' < 2 ^ Suc 52" using q'(2) by simp
    have "bits m = bits q' + k" unfolding m_def using q'(1) by (intro bits_mult_pow) simp
    moreover have "bits q' = Suc 52" using q'(1) lt by (rule bits_eq)
    ultimately have "bits m - 53 = k" by simp
    then show ?thesis by (simp add: m_def)
  qed
  then show ?thesis unfolding r by (simp add: is_double_def)
qed

lemma scale_bound: "0 < 2 ^ 1024 * scale"
  using scale_pos by simp

lemma Number_add_is_double: "is_double (Number_add x y)"
proof (cases x)
  case NaN
  then show ?thesis by (simp add: is_double_def)
next
  case (Infinite s)
  then show ?thesis by (cases y) (simp_all add: is_double_def)
next
  case (Finite s a)
  show ?thesis
  proof (cases y)
    case NaN
    then show ?thesis using Finite by (simp add: is_double_def)
  next
    case (Infinite t)
    then show ?thesis using Finite by (simp add: is_double_def)
  next
    case F: (Finite t b)
    have z: "is_double (Finite u 0)" for u
      unfolding is_double_def using scale_bound by (simp add: bits_0)
    show ?thesis unfolding Finite F by (simp add: Let_def z round64_is_double)
  qed
qed

lemma num_of_int_is_double: "is_double (num_of_int i)"
  unfolding num_of_int_def is_double_def
  using scale_bound round64_is_double[of "i < 0" "nat \<bar>i\<bar> * scale"]
  by (simp add: bits_0 is_double_def)

subsection \<open>The revenue figure\<close>

lemma totalRevenue_foldl:
  "totalRevenue (getStats s) =
     foldl Number_add (Finite False 0)
       (map totalPrice
         (filter (\<lambda>r. status r = Confirmed \<or> status r = Completed) (map snd (reservations s))))"
  by (simp add: getStats_def Let_def foldl_map)

lemma totalRevenue_is_double: "is_double (totalRevenue (getStats s))"
proof -
  have z: "is_double (Finite False 0)"
    unfolding is_double_def using scale_bound by (simp add: bits_0)
  have "is_double a \<Longrightarrow> is_double (foldl Number_add a xs)" for a xs
    by (induction xs arbitrary: a) (simp_all add: Number_add_is_double)
  then show ?thesis unfolding totalRevenue_foldl using z by simp
qed

lemma foldl_Number_add_ints:
  "0 \<le> a \<Longrightarrow> \<forall>p \<in> set ps. 0 \<le> p \<Longrightarrow> a + sum_list ps \<le> 2 ^ 53
   \<Longrightarrow> foldl Number_add (num_of_int a) (map num_of_int ps) = num_of_int (a + sum_list ps)"
proof (induction ps arbitrary: a)
  case Nil
  show ?case by simp
next
  case (Cons p ps)
  have p: "0 \<le> p" and ps: "\<forall>q \<in> set ps. 0 \<le> q" using Cons.prems(2) by simp_all
  have s: "0 \<le> sum_list ps" using ps by (intro sum_list_nonneg) simp
  have le: "a + p + sum_list ps \<le> 2 ^ 53" using Cons.prems(3) by simp
  have "\<bar>a\<bar> \<le> 2 ^ 53" and "\<bar>p\<bar> \<le> 2 ^ 53" using Cons.prems(1) p s le by linarith+
  then have "Number_add (num_of_int a) (num_of_int p) = num_of_int (a + p)"
    by (rule Number_add_ints)
  moreover have "foldl Number_add (num_of_int (a + p)) (map num_of_int ps)
      = num_of_int (a + p + sum_list ps)"
    using Cons.prems(1) p ps le by (intro Cons.IH) simp_all
  ultimately show ?case by (simp add: add.assoc)
qed

text \<open>
  Claim C6 fails as stated: the revenue figure is not always the sum of \<open>totalPrice\<close> over
  the confirmed and completed reservations. \<open>reduce\<close> adds binary64 values, and each
  addition rounds to the nearest binary64 value. In the store \<open>rounding_db\<close> a confirmed
  reservation has \<open>totalPrice\<close> 9007199254740992 (that is \<open>2 ^ 53\<close>) and a completed one
  has \<open>totalPrice\<close> 1; both are binary64 values, their sum 9007199254740993 is not, and
  the revenue figure is 9007199254740992.
\<close>

theorem totalRevenue_exact_sum_counterexample:
  "map (\<lambda>(i, r). (status r, to_int (totalPrice r))) (reservations rounding_db)
     = [(Confirmed, Some 9007199254740992), (Completed, Some 1)]
   \<and> is_double (num_of_int 9007199254740992) \<and> is_double (num_of_int 1)
   \<and> to_int (totalRevenue (getStats rounding_db)) = Some 9007199254740992
   \<and> to_int (totalRevenue (getStats rounding_db)) \<noteq> Some (9007199254740992 + 1)"
proof -
  have i: "to_int (num_of_int 9007199254740992) = Some 9007199254740992"
    "to_int (num_of_int 1) = Some 1"
    by (simp_all add: to_int_num_of_int)
  have a: "map (\<lambda>(i, r). (status r, to_int (totalPrice r))) (reservations rounding_db)
     = [(Confirmed, Some 9007199254740992), (Completed, Some 1)]"
    by (simp add: rounding_db_def booking_def i)
  have z: "Finite False 0 = num_of_int 0" by (simp add: num_of_int_def)
  have "totalRevenue (getStats rounding_db)
      = Number_add (Number_add (num_of_int 0) (num_of_int 9007199254740992)) (num_of_int 1)"
    unfolding totalRevenue_foldl z[symmetric] by (simp add: rounding_db_def booking_def)
  also have "Number_add (num_of_int 0) (num_of_int 9007199254740992)
      = num_of_int (0 + 9007199254740992)"
    by (rule Number_add_ints) simp_all
  also have "Number_add (num_of_int (0 + 9007199254740992)) (num_of_int 1)
      = num_of_int (0 + 9007199254740992 + 1)"
    by (rule Number_add_ints) simp_all
  also have "num_of_int (0 + 9007199254740992 + 1) = num_of_int 9007199254740992"
    using num_of_int_rounds by simp
  finally have b: "to_int (totalRevenue (getStats rounding_db)) = Some 9007199254740992"
    by (simp only: i)
  have c: "is_double (num_of_int 9007199254740992)" "is_double (num_of_int 1)"
    by (rule num_of_int_is_double)+
  show ?thesis using a b c by simp
qed

text \<open>
  Claim C6, amended. For every store state the revenue figure of \<open>getStats\<close> is the
  binary64 sum, taken from \<open>+0\<close> in creation order and rounded to nearest (ties to even)
  at each addition, of \<open>totalPrice\<close> over exactly the reservations whose status is
  confirmed or completed. Reservations in pending or cancelled status contribute
  nothing: two stores with the same confirmed and completed reservations have the same
  figure. When every such \<open>totalPrice\<close> is a non-negative integer and their sum is at
  most \<open>2 ^ 53\<close>, the figure is exactly that sum.
\<close>

theorem totalRevenue_float_sum:
  "totalRevenue (getStats s) =
     foldl Number_add (Finite False 0)
       (map totalPrice
         (filter (\<lambda>r. status r = Confirmed \<or> status r = Completed) (map snd (reservations s))))
   \<and> (filter (\<lambda>r. status r = Confirmed \<or> status r = Completed) (map snd (reservations s'))
        = filter (\<lambda>r. status r = Confirmed \<or> status r = Completed) (map snd (reservations s))
      \<longrightarrow> totalRevenue (getStats s') = totalRevenue (getStats s))
   \<and> (map totalPrice
         (filter (\<lambda>r. status r = Confirmed \<or> status r = Completed) (map snd (reservations s)))
        = map num_of_int ps
       \<and> (\<forall>p \<in> set ps. 0 \<le> p) \<and> sum_list ps \<le> 2 ^ 53
      \<longrightarrow> totalRevenue (getStats s) = num_of_int (sum_list ps)
          \<and> to_int (totalRevenue (getStats s)) = Some (sum_list ps))"
proof (intro conjI impI)
  show "totalRevenue (getStats s) =
     foldl Number_add (Finite False 0)
       (map totalPrice
         (filter (\<lambda>r. status r = Confirmed \<or> status r = Completed) (map snd (reservations s))))"
    by (rule totalRevenue_foldl)
next
  assume "filter (\<lambda>r. status r = Confirmed \<or> status r = Completed) (map snd (reservations s'))
        = filter (\<lambda>r. status r = Confirmed \<or> status r = Completed) (map snd (reservations s))"
  then show "totalRevenue (getStats s') = totalRevenue (getStats s)"
    by (simp only: totalRevenue_foldl)
next
  assume h: "map totalPrice
         (filter (\<lambda>r. status r = Confirmed \<or> status r = Completed) (map snd (reservations s)))
        = map num_of_int ps
       \<and> (\<forall>p \<in> set ps. 0 \<le> p) \<and> sum_list ps \<le> 2 ^ 53"
  have z: "Finite False 0 = num_of_int 0" by (simp add: num_of_int_def)
  have "foldl Number_add (num_of_int 0) (map num_of_int ps) = num_of_int (0 + sum_list ps)"
    using h by (intro foldl_Number_add_ints) simp_all
  then have r: "totalRevenue (getStats s) = num_of_int (sum_list ps)"
    using h by (simp add: totalRevenue_foldl z)
  have "0 \<le> sum_list ps" using h by (intro sum_list_nonneg) simp
  then have "\<bar>sum_list ps\<bar> \<le> 2 ^ 53" using h by simp
  then have t: "to_int (num_of_int (sum_list ps)) = Some (sum_list ps)"
    by (rule to_int_num_of_int)
  show "totalRevenue (getStats s) = num_of_int (sum_list ps)" by (rule r)
  show "to_int (totalRevenue (getStats s)) = Some (sum_list ps)" by (simp only: r t)
qed

theorem totalRevenue_float_sum_witness:
  "map (\<lambda>(i, r). (status r, totalPrice r)) (reservations revenue_db)
     = [(Confirmed, num_of_int 100000), (Pending, num_of_int 70000),
        (Cancelled, num_of_int 30000), (Completed, num_of_int 50000)]
   \<and> map (\<lambda>(i, r). (status r, totalPrice r)) (reservations settled_db)
     = [(Confirmed, num_of_int 100000), (Completed, num_of_int 50000)]
   \<and> totalRevenue (getStats revenue_db)
     = Number_add (Number_add (Finite False 0) (num_of_int 100000)) (num_of_int 50000)
   \<and> totalRevenue (getStats settled_db) = totalRevenue (getStats revenue_db)
   \<and> totalRevenue (getStats revenue_db) = num_of_int 150000
   \<and> to_int (totalRevenue (getStats revenue_db)) = Some 150000"
proof -
  note t = totalRevenue_float_sum [of revenue_db settled_db "[100000, 50000]"]
  have a: "map (\<lambda>(i, r). (status r, totalPrice r)) (reservations revenue_db)
     = [(Confirmed, num_of_int 100000), (Pending, num_of_int 70000),
        (Cancelled, num_of_int 30000), (Completed, num_of_int 50000)]"
    by (simp add: revenue_db_def booking_def pending_booking_def)
  have b: "map (\<lambda>(i, r). (status r, totalPrice r)) (reservations settled_db)
     = [(Confirmed, num_of_int 100000), (Completed, num_of_int 50000)]"
    by (simp add: settled_db_def booking_def)
  have fr: "filter (\<lambda>r. status r = Confirmed \<or> status r = Completed)
        (map snd (reservations revenue_db))
      = [booking, booking\<lparr>status := Completed, totalPrice := num_of_int 50000\<rparr>]"
    by (simp add: revenue_db_def booking_def pending_booking_def)
  have fs: "filter (\<lambda>r. status r = Confirmed \<or> status r = Completed)
        (map snd (reservations settled_db))
      = [booking, booking\<lparr>status := Completed, totalPrice := num_of_int 50000\<rparr>]"
    by (simp add: settled_db_def booking_def)
  have p: "map totalPrice (filter (\<lambda>r. status r = Confirmed \<or> status r = Completed)
        (map snd (reservations revenue_db))) = map num_of_int [100000, 50000]"
    unfolding fr by (simp add: booking_def)
  have c: "totalRevenue (getStats revenue_db)
     = Number_add (Number_add (Finite False 0) (num_of_int 100000)) (num_of_int 50000)"
    using t[THEN conjunct1] unfolding p by simp
  have d: "totalRevenue (getStats settled_db) = totalRevenue (getStats revenue_db)"
    using t[THEN conjunct2, THEN conjunct1, rule_format] by (simp only: fr fs)
  have h: "map totalPrice (filter (\<lambda>r. status r = Confirmed \<or> status r = Completed)
        (map snd (reservations revenue_db))) = map num_of_int [100000, 50000]
      \<and> (\<forall>p \<in> set [100000, 50000::int]. 0 \<le> p) \<and> sum_list [100000, 50000::int] \<le> 2 ^ 53"
    using p by simp
  note e = t[THEN conjunct2, THEN conjunct2, rule_format, OF h]
  have s: "sum_list [100000, 50000::int] = 150000" by simp
  have e1: "totalRevenue (getStats revenue_db) = num_of_int 150000"
    using e[THEN conjunct1] by (simp only: s)
  have e2: "to_int (totalRevenue (getStats revenue_db)) = Some 150000"
    using e[THEN conjunct2] by (simp only: s)
  show ?thesis using a b c d e1 e2 by (intro conjI)
qed

section \<open>Room views\<close>

lemma length_filter_eq_iff: "length (filter P xs) = length xs \<longleftrightarrow> (\<forall>x \<in> set xs. P x)"
proof (induction xs)
  case Nil
  show ?case by simp
next
  case (Cons x xs)
  have "length (filter P xs) \<noteq> Suc (length xs)"
    using length_filter_le[of P xs] by linarith
  then show ?case using Cons by auto
qed

text \<open>
  Claim C8. \<open>listAll\<close> returns every room, and \<open>list\<close> exactly the rooms with
  \<open>isAvailable\<close> true (as multisets of documents: each room once for each time the table
  holds it), both in nondecreasing \<open>order\<close>. So \<open>listAll\<close> is at least as long as \<open>list\<close>,
  and they are equally long if and only if no room has its flag off.
\<close>

theorem room_views:
  "mset (listAll s) = mset (rooms s)
   \<and> sorted (map (\<lambda>r. order (snd r)) (listAll s))
   \<and> mset (list s) = mset (filter (\<lambda>r. isAvailable (snd r)) (rooms s))
   \<and> sorted (map (\<lambda>r. order (snd r)) (list s))
   \<and> length (listAll s) \<ge> length (list s)
   \<and> (length (listAll s) = length (list s) \<longleftrightarrow> (\<forall>r \<in> set (rooms s). isAvailable (snd r)))"
proof -
  have "length (filter (\<lambda>r. isAvailable (snd r)) (rooms s)) = length (rooms s)
      \<longleftrightarrow> (\<forall>r \<in> set (rooms s). isAvailable (snd r))"
    by (rule length_filter_eq_iff)
  then show ?thesis
    by (auto simp: listAll_def list_def sort_by_order_def)
qed

theorem room_views_witness:
  "map (\<lambda>r. isAvailable (snd r)) (rooms example_db) = [True, True]
   \<and> length (listAll example_db) = length (list example_db)
   \<and> map (\<lambda>r. isAvailable (snd r)) (rooms closed_db) = [False, True]
   \<and> length (listAll closed_db) \<noteq> length (list closed_db)
   \<and> listAll closed_db = [(1, room_A), (2, room_B\<lparr>isAvailable := False\<rparr>)]
   \<and> list closed_db = [(1, room_A)]"
proof -
  have a: "map (\<lambda>r. isAvailable (snd r)) (rooms example_db) = [True, True]"
    by (simp add: example_db_def room_A_def room_B_def)
  have b: "map (\<lambda>r. isAvailable (snd r)) (rooms closed_db) = [False, True]"
    by (simp add: closed_db_def room_A_def room_B_def)
  have a': "\<forall>r \<in> set (rooms example_db). isAvailable (snd r)"
    by (simp add: example_db_def room_A_def room_B_def)
  have b': "\<not> (\<forall>r \<in> set (rooms closed_db). isAvailable (snd r))"
    by (simp add: closed_db_def)
  have c: "length (listAll example_db) = length (list example_db)"
    using room_views[of example_db] a' by blast
  have d: "length (listAll closed_db) \<noteq> length (list closed_db)"
    using room_views[of closed_db] b' by blast
  have e: "listAll closed_db = [(1, room_A), (2, room_B\<lparr>isAvailable := False\<rparr>)]"
    by (simp add: listAll_def sort_by_order_def closed_db_def room_A_def room_B_def)
  have f: "list closed_db = [(1, room_A)]"
    by (simp add: list_def sort_by_order_def closed_db_def room_A_def room_B_def)
  show ?thesis using a b c d e f by (intro conjI)
qed

section \<open>Seeding\<close>

lemma rooms_after_inserts:
  "map snd (rooms (foldl (\<lambda>s' room. snd (insert_room s' room)) s xs)) = map snd (rooms s) @ xs"
  by (induction xs arbitrary: s) (simp_all add: insert_room_def)

lemma roomsData_length: "length roomsData = 6"
  by (simp add: roomsData_def)

text \<open>
  Claim C10. On a store whose rooms table is not empty, \<open>seedRooms\<close> inserts nothing: it
  leaves the store as it is and returns the number of rooms there are. On an empty rooms
  table it inserts the six rooms of \<open>roomsData\<close>. Hence a second run changes nothing:
  the store after two runs is the store after one.
\<close>

theorem seedRooms_idempotent:
  "(rooms s \<noteq> [] \<longrightarrow>
      seedRooms s = (\<lparr>message = msg_rooms_exist, count = length (rooms s)\<rparr>, s))
   \<and> (rooms s = [] \<longrightarrow> map snd (rooms (snd (seedRooms s))) = roomsData)
   \<and> snd (seedRooms (snd (seedRooms s))) = snd (seedRooms s)"
proof -
  have a: "seedRooms s = (\<lparr>message = msg_rooms_exist, count = length (rooms s)\<rparr>, s)"
    if "rooms s \<noteq> []" for s
    using that by (simp add: seedRooms_def Let_def)
  have b: "map snd (rooms (snd (seedRooms s))) = roomsData" if "rooms s = []"
    using that by (simp add: seedRooms_def Let_def rooms_after_inserts)
  have "rooms (snd (seedRooms s)) \<noteq> []"
  proof (cases "rooms s = []")
    case True
    have "length (map snd (rooms (snd (seedRooms s)))) = 6"
      unfolding b[OF True] by (rule roomsData_length)
    then show ?thesis by auto
  next
    case False
    then show ?thesis by (simp add: a)
  qed
  then have "snd (seedRooms (snd (seedRooms s))) = snd (seedRooms s)"
    by (simp add: a)
  then show ?thesis using a b by blast
qed

theorem seedRooms_idempotent_witness:
  "rooms example_db \<noteq> []
   \<and> seedRooms example_db = (\<lparr>message = msg_rooms_exist, count = 2\<rparr>, example_db)
   \<and> rooms empty_db = []
   \<and> map snd (rooms (snd (seedRooms empty_db))) = roomsData
   \<and> length (rooms (snd (seedRooms empty_db))) = 6
   \<and> snd (seedRooms (snd (seedRooms empty_db))) = snd (seedRooms empty_db)"
proof -
  have n: "rooms example_db \<noteq> []" by (simp add: example_db_def)
  have l: "length (rooms example_db) = 2" by (simp add: example_db_def)
  have "seedRooms example_db
      = (\<lparr>message = msg_rooms_exist, count = length (rooms example_db)\<rparr>, example_db)"
    using seedRooms_idempotent[of example_db] n by blast
  then have a: "seedRooms example_db = (\<lparr>message = msg_rooms_exist, count = 2\<rparr>, example_db)"
    using l by simp
  have e: "rooms empty_db = []" by (simp add: empty_db_def)
  note z = seedRooms_idempotent[of empty_db]
  have b: "map snd (rooms (snd (seedRooms empty_db))) = roomsData" using z e by blast
  have c: "snd (seedRooms (snd (seedRooms empty_db))) = snd (seedRooms empty_db)"
    using z by blast
  have "length (map snd (rooms (snd (seedRooms empty_db)))) = 6"
    unfolding b by (rule roomsData_length)
  then have d: "length (rooms (snd (seedRooms empty_db))) = 6" by simp
  show ?thesis using n a e b d c by (intro conjI)
qed

end
